theory Spec2Isabelle
  imports Main "HOL-Library.Sublist" "HOL-Library.AList"
begin

unbundle bit_operations_syntax

section \<open>The path module used by the server (POSIX flavour)\<close>

text \<open>
  \<^verbatim>\<open>src/index.ts\<close> imports Node's \<^verbatim>\<open>path\<close> module and uses \<^verbatim>\<open>path.resolve\<close>,
  \<^verbatim>\<open>path.normalize\<close>, \<^verbatim>\<open>path.join\<close>, \<^verbatim>\<open>path.dirname\<close> and \<^verbatim>\<open>path.sep\<close>. The module is
  not part of the repository; the definitions below transcribe its POSIX implementation
  (\<^verbatim>\<open>lib/path.js\<close> of Node.js: \<^verbatim>\<open>normalizeString\<close> and the \<^verbatim>\<open>posix\<close> object), so
  \<^verbatim>\<open>path.sep\<close> is \<^verbatim>\<open>/\<close>. The Windows flavour of the module (drive letters, backslash as a
  second separator) is not modelled. JavaScript strings are modelled as \<^typ>\<open>string\<close>; the
  path functions only ever compare characters with \<^verbatim>\<open>/\<close> and \<^verbatim>\<open>.\<close>.
\<close>

definition sep :: string where
  "sep = ''/''"

definition isPosixPathSeparator :: "char \<Rightarrow> bool" where
  "isPosixPathSeparator c = (c = CHR ''/'')"

text \<open>\<^verbatim>\<open>String.prototype.lastIndexOf\<close> for a single character: \<open>-1\<close> when absent.\<close>

fun lastIndexOf :: "string \<Rightarrow> char \<Rightarrow> int" where
  "lastIndexOf [] c = -1"
| "lastIndexOf (x # xs) c =
     (let r = lastIndexOf xs c in
      if r \<noteq> -1 then r + 1 else if x = c then 0 else -1)"

text \<open>\<^verbatim>\<open>String.prototype.startsWith\<close> and \<^verbatim>\<open>String.prototype.includes\<close>.\<close>

definition startsWith :: "string \<Rightarrow> string \<Rightarrow> bool" where
  "startsWith s t = prefix t s"

fun str_includes :: "string \<Rightarrow> string \<Rightarrow> bool" where
  "str_includes [] t = (t = [])"
| "str_includes (x # xs) t = (prefix t (x # xs) \<or> str_includes xs t)"

text \<open>
  The loop state of \<^verbatim>\<open>normalizeString\<close>. The source keeps the indices \<^verbatim>\<open>lastSlash\<close> and
  \<^verbatim>\<open>i\<close> and reads the current segment as \<^verbatim>\<open>path.slice(lastSlash + 1, i)\<close>; the model
  carries that slice in \<open>seg\<close>, so \<^verbatim>\<open>lastSlash === i - 1\<close> is \<open>seg = []\<close>.
\<close>

record ns_state =
  res :: string
  lastSegmentLength :: int
  seg :: string
  dots :: int

definition ns_init :: ns_state where
  "ns_init = \<lparr>res = [], lastSegmentLength = 0, seg = [], dots = 0\<rparr>"

text \<open>What every path through the separator branch ends with: \<^verbatim>\<open>lastSlash = i; dots = 0\<close>.\<close>

definition ns_mark :: "ns_state \<Rightarrow> ns_state" where
  "ns_mark st = st\<lparr>seg := [], dots := 0\<rparr>"

definition ns_above :: "bool \<Rightarrow> ns_state \<Rightarrow> ns_state" where
  "ns_above allowAboveRoot st =
     ns_mark (if allowAboveRoot
              then st\<lparr>res := (if length (res st) > 0 then res st @ ''/..'' else ''..''),
                      lastSegmentLength := 2\<rparr>
              else st)"

definition ns_separator :: "bool \<Rightarrow> ns_state \<Rightarrow> ns_state" where
  "ns_separator allowAboveRoot st =
     (if seg st = [] \<or> dots st = 1 then ns_mark st
      else if dots st = 2 then
        (if length (res st) < 2 \<or> lastSegmentLength st \<noteq> 2 \<or>
            last (res st) \<noteq> CHR ''.'' \<or> last (butlast (res st)) \<noteq> CHR ''.''
         then
           (if length (res st) > 2 then
              (let lastSlashIndex = lastIndexOf (res st) CHR ''/'' in
               if lastSlashIndex = -1
               then ns_mark (st\<lparr>res := [], lastSegmentLength := 0\<rparr>)
               else
                 (let r = take (nat lastSlashIndex) (res st) in
                  ns_mark (st\<lparr>res := r,
                               lastSegmentLength := int (length r) - 1 - lastIndexOf r CHR ''/''\<rparr>)))
            else if length (res st) \<noteq> 0
            then ns_mark (st\<lparr>res := [], lastSegmentLength := 0\<rparr>)
            else ns_above allowAboveRoot st)
         else ns_above allowAboveRoot st)
      else
        ns_mark (st\<lparr>res := (if length (res st) > 0 then res st @ ''/'' @ seg st else seg st),
                     lastSegmentLength := int (length (seg st))\<rparr>))"

definition ns_char :: "bool \<Rightarrow> ns_state \<Rightarrow> char \<Rightarrow> ns_state" where
  "ns_char allowAboveRoot st c =
     (if isPosixPathSeparator c then ns_separator allowAboveRoot st
      else if c = CHR ''.'' \<and> dots st \<noteq> -1
      then st\<lparr>seg := seg st @ [c], dots := dots st + 1\<rparr>
      else st\<lparr>seg := seg st @ [c], dots := -1\<rparr>)"

text \<open>
  The loop runs for \<^verbatim>\<open>i <= path.length\<close>: after the last character it stops if that
  character was a separator, and otherwise acts once more as if a separator followed.
\<close>

definition normalizeString :: "string \<Rightarrow> bool \<Rightarrow> string" where
  "normalizeString path allowAboveRoot =
     (let st = foldl (ns_char allowAboveRoot) ns_init path in
      res (if path \<noteq> [] \<and> isPosixPathSeparator (last path) then st
           else ns_separator allowAboveRoot st))"

text \<open>
  \<^verbatim>\<open>posix.resolve(...args)\<close>: the arguments are taken from the right, then the working
  directory, until an absolute one was prepended; empty arguments are skipped.
\<close>

fun resolve_loop :: "string list \<Rightarrow> string \<Rightarrow> string \<times> bool" where
  "resolve_loop [] resolvedPath = (resolvedPath, False)"
| "resolve_loop (path # rest) resolvedPath =
     (if length path = 0 then resolve_loop rest resolvedPath
      else if hd path = CHR ''/'' then (path @ ''/'' @ resolvedPath, True)
      else resolve_loop rest (path @ ''/'' @ resolvedPath))"

definition posix_resolve :: "string \<Rightarrow> string list \<Rightarrow> string" where
  "posix_resolve cwd args =
     (case resolve_loop (rev args @ [cwd]) [] of
        (resolvedPath, resolvedAbsolute) \<Rightarrow>
          (let r = normalizeString resolvedPath (\<not> resolvedAbsolute) in
           if resolvedAbsolute then ''/'' @ r
           else if length r > 0 then r else ''.''))"

definition posix_normalize :: "string \<Rightarrow> string" where
  "posix_normalize path =
     (if length path = 0 then ''.''
      else
        (let isAbsolute = (hd path = CHR ''/'');
             trailingSeparator = (last path = CHR ''/'');
             p = normalizeString path (\<not> isAbsolute)
         in if length p = 0
            then (if isAbsolute then ''/'' else if trailingSeparator then ''./'' else ''.'')
            else (let p' = (if trailingSeparator then p @ ''/'' else p)
                  in if isAbsolute then ''/'' @ p' else p')))"

text \<open>\<^verbatim>\<open>posix.join(...args)\<close>: the non-empty arguments joined by \<^verbatim>\<open>/\<close>, then normalised.\<close>

fun join_args :: "string list \<Rightarrow> string option \<Rightarrow> string option" where
  "join_args [] joined = joined"
| "join_args (arg # rest) joined =
     (if length arg > 0
      then join_args rest (case joined of None \<Rightarrow> Some arg | Some j \<Rightarrow> Some (j @ ''/'' @ arg))
      else join_args rest joined)"

definition posix_join :: "string list \<Rightarrow> string" where
  "posix_join args =
     (case join_args args None of None \<Rightarrow> ''.'' | Some joined \<Rightarrow> posix_normalize joined)"

text \<open>
  \<^verbatim>\<open>posix.dirname(path)\<close>: the scan runs from the last index down to index 1 and looks for
  the first separator after a non-separator was seen. \<open>dirname_scan\<close> takes the indices
  still to visit (in visiting order) and the flag \<^verbatim>\<open>matchedSlash\<close>, and returns \<^verbatim>\<open>end\<close> (here \<open>endi\<close>).
\<close>

fun dirname_scan :: "string \<Rightarrow> nat list \<Rightarrow> bool \<Rightarrow> int" where
  "dirname_scan path [] matchedSlash = -1"
| "dirname_scan path (i # is) matchedSlash =
     (if path ! i = CHR ''/''
      then (if \<not> matchedSlash then int i else dirname_scan path is matchedSlash)
      else dirname_scan path is False)"

definition posix_dirname :: "string \<Rightarrow> string" where
  "posix_dirname path =
     (if length path = 0 then ''.''
      else
        (let hasRoot = (hd path = CHR ''/'');
             endi = dirname_scan path (rev [1 ..< length path]) True
         in if endi = -1 then (if hasRoot then ''/'' else ''.'')
            else if hasRoot \<and> endi = 1 then ''//''
            else take (nat endi) path))"

section \<open>Path validation\<close>

text \<open>
  \<^verbatim>\<open>ALLOWED_BASE_PATH\<close> is read once at start-up (\<^verbatim>\<open>process.env.MCP_FILE_BASE_PATH || process.cwd()\<close>)
  and never changes; it is the parameter \<open>base\<close>. \<open>cwd\<close> is \<^verbatim>\<open>process.cwd()\<close>, which
  \<^verbatim>\<open>path.resolve\<close> consults when \<open>base\<close> is not absolute. A thrown \<^verbatim>\<open>Error\<close> is \<open>Inl\<close> of
  its message. The source begins with a test of the input for the substring \<^verbatim>\<open>..\<close> whose
  branch is empty; the binding of \<open>u\<close> is that statement.
\<close>

definition allowed_base_path :: "string option \<Rightarrow> string \<Rightarrow> string" where
  "allowed_base_path env cwd = (case env of None \<Rightarrow> cwd | Some v \<Rightarrow> if v = [] then cwd else v)"

definition access_denied :: "string \<Rightarrow> string" where
  "access_denied inputPath =
     ''Access denied: Path '' @ [CHR 0x27] @ inputPath @ [CHR 0x27] @
     '' resolves outside the allowed directory.''"

definition validatePath :: "string \<Rightarrow> string \<Rightarrow> string \<Rightarrow> string + string" where
  "validatePath base cwd inputPath =
     (let u = (if str_includes inputPath ''..'' then () else ());
          resolvedPath = posix_resolve cwd [base, inputPath];
          normalizedAllowedBasePath = posix_normalize (base @ sep);
          normalizedResolvedPath = posix_normalize resolvedPath
      in if \<not> startsWith normalizedResolvedPath normalizedAllowedBasePath \<and>
            normalizedResolvedPath \<noteq> posix_normalize base
         then Inl (access_denied inputPath)
         else Inr resolvedPath)"

section \<open>Values, errors and responses\<close>

text \<open>
  The argument bag of a call is a JSON object or absent; \<^verbatim>\<open>typeof\<close> tells a string from
  every other value. The same type describes the objects the handlers serialise.
\<close>

datatype json =
    JNull
  | JBool bool
  | JNum int
  | JStr string
  | JArr "json list"
  | JObj "(string \<times> json) list"

type_synonym arguments = "(string \<rightharpoonup> json) option"

text \<open>
  What a handler throws: an \<^verbatim>\<open>Error\<close> with a message, and the \<^verbatim>\<open>code\<close> property that only
  errors of the storage layer carry (\<^verbatim>\<open>ENOENT\<close>, ...).
\<close>

datatype exn = Error (code: "string option") (message: string)

definition new_Error :: "string \<Rightarrow> exn" where
  "new_Error msg = Error None msg"

text \<open>
  A response is \<^verbatim>\<open>{ content: [{ type: "text", text }] }\<close>. The text is either a plain string
  or \<^verbatim>\<open>JSON.stringify(v, null, 2)\<close> of an object \<open>v\<close>; the serialiser itself is not
  modelled, \<open>Stringify v\<close> stands for its output.
\<close>

datatype rendered = Plain string | Stringify json

record content_item =
  ctype :: string
  text_val :: rendered

record response =
  resp_content :: "content_item list"

definition text_response :: "rendered \<Rightarrow> response" where
  "text_response t = \<lparr>resp_content = [\<lparr>ctype = ''text'', text_val = t\<rparr>]\<rparr>"

definition quoted :: "string \<Rightarrow> string" where
  "quoted s = [CHR 0x27] @ s @ [CHR 0x27]"

section \<open>The storage layer\<close>

text \<open>
  \<^verbatim>\<open>fs/promises\<close> is outside the repository. A handler sees it as a set of operations,
  each of which answers with a value or an error and may change the state of the world
  \<open>'w\<close>; the handlers are written against this interface, so what is proved of them
  holds for every behaviour of the storage. \<open>fs_mkdir\<close> is \<^verbatim>\<open>mkdir(p, {recursive: true})\<close>
  and \<open>fs_rm\<close> is \<^verbatim>\<open>rm(p, {recursive: true, force: false})\<close>.
\<close>

record stats =
  isDirectory :: bool
  st_size :: nat
  birthtime :: string
  mtime :: string
  atime :: string
  mode :: nat

record dirent =
  d_name :: string
  d_isDirectory :: bool

type_synonym ('w, 'a) io = "'w \<Rightarrow> (exn + 'a) \<times> 'w"

record 'w fs_api =
  fs_readdir :: "string \<Rightarrow> ('w, dirent list) io"
  fs_stat :: "string \<Rightarrow> ('w, stats) io"
  fs_access :: "string \<Rightarrow> ('w, unit) io"
  fs_readFile :: "string \<Rightarrow> ('w, string) io"
  fs_writeFile :: "string \<Rightarrow> string \<Rightarrow> ('w, unit) io"
  fs_mkdir :: "string \<Rightarrow> ('w, unit) io"
  fs_rm :: "string \<Rightarrow> ('w, unit) io"
  fs_unlink :: "string \<Rightarrow> ('w, unit) io"

text \<open>\<^verbatim>\<open>return\<close>, \<^verbatim>\<open>throw\<close>, \<^verbatim>\<open>await\<close> and \<^verbatim>\<open>try/catch\<close> of an async function.\<close>

definition return :: "'a \<Rightarrow> ('w, 'a) io" where
  "return a w = (Inr a, w)"

definition throw :: "exn \<Rightarrow> ('w, 'a) io" where
  "throw e w = (Inl e, w)"

definition await :: "('w, 'a) io \<Rightarrow> ('a \<Rightarrow> ('w, 'b) io) \<Rightarrow> ('w, 'b) io" where
  "await m f w = (case m w of (Inl e, w') \<Rightarrow> (Inl e, w') | (Inr a, w') \<Rightarrow> f a w')"

definition try_catch :: "('w, 'a) io \<Rightarrow> (exn \<Rightarrow> ('w, 'a) io) \<Rightarrow> ('w, 'a) io" where
  "try_catch m h w = (case m w of (Inl e, w') \<Rightarrow> h e w' | (Inr a, w') \<Rightarrow> (Inr a, w'))"

text \<open>\<^verbatim>\<open>this.validatePath(p)\<close> inside a handler: its \<^verbatim>\<open>throw\<close> leaves the handler.\<close>

definition validated :: "string \<Rightarrow> string \<Rightarrow> string \<Rightarrow> ('w, string) io" where
  "validated base cwd inputPath =
     (case validatePath base cwd inputPath of
        Inl msg \<Rightarrow> throw (new_Error msg)
      | Inr safePath \<Rightarrow> return safePath)"

section \<open>Tool implementations\<close>

definition kind_of :: "bool \<Rightarrow> string" where
  "kind_of isDir = (if isDir then ''directory'' else ''file'')"

text \<open>
  The callback mapped over the directory entries in \<^verbatim>\<open>listDirectory\<close>: it catches the
  failure of \<^verbatim>\<open>fs.stat\<close> itself, so it always yields an entry (the warning it writes to
  the console is not part of the model).
\<close>

definition list_item :: "'w fs_api \<Rightarrow> string \<Rightarrow> dirent \<Rightarrow> 'w \<Rightarrow> json \<times> 'w" where
  "list_item fs safePath item w =
     (let itemFullPath = posix_join [safePath, d_name item] in
      case fs_stat fs itemFullPath w of
        (Inl statError, w') \<Rightarrow>
          (JObj [(''name'', JStr (d_name item)),
                 (''type'', JStr (kind_of (d_isDirectory item))),
                 (''error'', JStr ''Could not retrieve stats for this item.'')], w')
      | (Inr stats, w') \<Rightarrow>
          (JObj [(''name'', JStr (d_name item)),
                 (''type'', JStr (kind_of (d_isDirectory item))),
                 (''size'', JNum (int (st_size stats))),
                 (''modified'', JStr (mtime stats))], w'))"

text \<open>
  \<^verbatim>\<open>Promise.all(items.map(...))\<close>: the entries in the order of the items. The callbacks
  start in that order, and the model lets the storage answer them in that order.
\<close>

fun list_items :: "'w fs_api \<Rightarrow> string \<Rightarrow> dirent list \<Rightarrow> 'w \<Rightarrow> json list \<times> 'w" where
  "list_items fs safePath [] w = ([], w)"
| "list_items fs safePath (item # items) w =
     (case list_item fs safePath item w of
        (entry, w') \<Rightarrow>
          (case list_items fs safePath items w' of
             (entries, w'') \<Rightarrow> (entry # entries, w'')))"

definition listDirectory ::
  "'w fs_api \<Rightarrow> string \<Rightarrow> string \<Rightarrow> string \<Rightarrow> ('w, response) io" where
  "listDirectory fs base cwd dirPath =
     await (validated base cwd dirPath) (\<lambda>safePath.
     await (fs_readdir fs safePath) (\<lambda>items w.
       case list_items fs safePath items w of
         (contents, w') \<Rightarrow>
           return (text_response (Stringify (JObj [(''path'', JStr dirPath),
                                                   (''contents'', JArr contents)]))) w'))"

definition readFile ::
  "'w fs_api \<Rightarrow> string \<Rightarrow> string \<Rightarrow> string \<Rightarrow> ('w, response) io" where
  "readFile fs base cwd filePath =
     await (validated base cwd filePath) (\<lambda>safePath.
     await (fs_stat fs safePath) (\<lambda>stats.
       if isDirectory stats
       then throw (new_Error (''Path '' @ quoted filePath @ '' is a directory, not a file.''))
       else await (fs_readFile fs safePath) (\<lambda>content.
              return (text_response (Plain content)))))"

definition writeFile ::
  "'w fs_api \<Rightarrow> string \<Rightarrow> string \<Rightarrow> string \<Rightarrow> string \<Rightarrow> ('w, response) io" where
  "writeFile fs base cwd filePath content =
     await (validated base cwd filePath) (\<lambda>safePath.
     (let parentDir = posix_dirname safePath in
      await (try_catch (fs_access fs parentDir)
               (\<lambda>error. throw (new_Error (''Parent directory for '' @ quoted filePath @
                                            '' does not exist or is not accessible.''))))
        (\<lambda>_.
      await (try_catch
               (await (fs_stat fs safePath) (\<lambda>stats.
                  if isDirectory stats
                  then throw (new_Error (''Path '' @ quoted filePath @
                         '' is an existing directory. Cannot overwrite a directory with a file.''))
                  else return ()))
               (\<lambda>error. if code error \<noteq> Some ''ENOENT'' then throw error else return ()))
        (\<lambda>_.
      await (fs_writeFile fs safePath content) (\<lambda>_.
        return (text_response (Plain (''File written successfully: '' @ filePath))))))))"

definition createDirectory ::
  "'w fs_api \<Rightarrow> string \<Rightarrow> string \<Rightarrow> string \<Rightarrow> ('w, response) io" where
  "createDirectory fs base cwd dirPath =
     await (validated base cwd dirPath) (\<lambda>safePath.
     await (fs_mkdir fs safePath) (\<lambda>_.
       return (text_response (Plain (''Directory created: '' @ dirPath)))))"

definition deleteItem ::
  "'w fs_api \<Rightarrow> string \<Rightarrow> string \<Rightarrow> string \<Rightarrow> ('w, response) io" where
  "deleteItem fs base cwd itemPath =
     await (validated base cwd itemPath) (\<lambda>safePath.
     await (fs_stat fs safePath) (\<lambda>stats.
     await (if isDirectory stats then fs_rm fs safePath else fs_unlink fs safePath) (\<lambda>_.
       return (text_response (Plain (''Deleted: '' @ itemPath))))))"

text \<open>\<^verbatim>\<open>Number.prototype.toString(8)\<close> on a non-negative integer.\<close>

fun toString8 :: "nat \<Rightarrow> string" where
  "toString8 n =
     (if n < 8 then [char_of (48 + n)]
      else toString8 (n div 8) @ [char_of (48 + n mod 8)])"

definition getFileInfo ::
  "'w fs_api \<Rightarrow> string \<Rightarrow> string \<Rightarrow> string \<Rightarrow> ('w, response) io" where
  "getFileInfo fs base cwd itemPath =
     await (validated base cwd itemPath) (\<lambda>safePath.
     await (fs_stat fs safePath) (\<lambda>stats.
       (let info = JObj [(''path'', JStr itemPath),
                         (''type'', JStr (kind_of (isDirectory stats))),
                         (''size'', JNum (int (st_size stats))),
                         (''created'', JStr (birthtime stats)),
                         (''modified'', JStr (mtime stats)),
                         (''accessed'', JStr (atime stats)),
                         (''permissions'', JStr (toString8 (mode stats AND 511)))]
        in return (text_response (Stringify info)))))"

section \<open>Dispatch of tool calls\<close>

text \<open>
  The \<^verbatim>\<open>switch\<close> of the \<^verbatim>\<open>CallToolRequestSchema\<close> handler first decides which handler to
  call with which arguments, or throws; \<open>invocation\<close> names that decision. The request
  schema makes \<^verbatim>\<open>name\<close> a string, so the guard \<^verbatim>\<open>typeof name !== 'string' || !name\<close> is the
  test for the empty string. \<open>arg_string args k\<close> is the value of \<^verbatim>\<open>args.k\<close> when
  \<^verbatim>\<open>!args || typeof args.k !== 'string'\<close> is false.
\<close>

datatype invocation =
    ListDirectory string
  | ReadFile string
  | WriteFile string string
  | CreateDirectory string
  | DeleteItem string
  | GetFileInfo string

definition arg_string :: "arguments \<Rightarrow> string \<Rightarrow> string option" where
  "arg_string args k =
     (case args of
        None \<Rightarrow> None
      | Some a \<Rightarrow> (case a k of Some (JStr s) \<Rightarrow> Some s | _ \<Rightarrow> None))"

definition missing_path :: "string \<Rightarrow> exn" where
  "missing_path tool = new_Error (''Missing or invalid '' @ quoted ''path'' @ '' argument for '' @ tool)"

definition select_handler :: "string \<Rightarrow> arguments \<Rightarrow> exn + invocation" where
  "select_handler tool args =
     (if tool = [] then Inl (new_Error ''Tool name is missing or invalid.'')
      else if tool = ''list_directory'' then
        (case arg_string args ''path'' of
           None \<Rightarrow> Inl (missing_path ''list_directory'')
         | Some p \<Rightarrow> Inr (ListDirectory p))
      else if tool = ''read_file'' then
        (case arg_string args ''path'' of
           None \<Rightarrow> Inl (missing_path ''read_file'')
         | Some p \<Rightarrow> Inr (ReadFile p))
      else if tool = ''write_file'' then
        (case (arg_string args ''path'', arg_string args ''content'') of
           (Some p, Some c) \<Rightarrow> Inr (WriteFile p c)
         | _ \<Rightarrow> Inl (new_Error (''Missing or invalid '' @ quoted ''path'' @ '' or '' @
                                 quoted ''content'' @ '' argument for write_file'')))
      else if tool = ''create_directory'' then
        (case arg_string args ''path'' of
           None \<Rightarrow> Inl (missing_path ''create_directory'')
         | Some p \<Rightarrow> Inr (CreateDirectory p))
      else if tool = ''delete_item'' then
        (case arg_string args ''path'' of
           None \<Rightarrow> Inl (missing_path ''delete_item'')
         | Some p \<Rightarrow> Inr (DeleteItem p))
      else if tool = ''get_file_info'' then
        (case arg_string args ''path'' of
           None \<Rightarrow> Inl (missing_path ''get_file_info'')
         | Some p \<Rightarrow> Inr (GetFileInfo p))
      else Inl (new_Error (''Unknown tool: '' @ tool)))"

fun invoke :: "'w fs_api \<Rightarrow> string \<Rightarrow> string \<Rightarrow> invocation \<Rightarrow> ('w, response) io" where
  "invoke fs base cwd (ListDirectory p) = listDirectory fs base cwd p"
| "invoke fs base cwd (ReadFile p) = readFile fs base cwd p"
| "invoke fs base cwd (WriteFile p c) = writeFile fs base cwd p c"
| "invoke fs base cwd (CreateDirectory p) = createDirectory fs base cwd p"
| "invoke fs base cwd (DeleteItem p) = deleteItem fs base cwd p"
| "invoke fs base cwd (GetFileInfo p) = getFileInfo fs base cwd p"

text \<open>The body of the \<^verbatim>\<open>try\<close> block.\<close>

definition tool_call :: "'w fs_api \<Rightarrow> string \<Rightarrow> string \<Rightarrow> string \<Rightarrow> arguments \<Rightarrow> ('w, response) io" where
  "tool_call fs base cwd tool args =
     (case select_handler tool args of
        Inl e \<Rightarrow> throw e
      | Inr call \<Rightarrow> invoke fs base cwd call)"

text \<open>\<^verbatim>\<open>String(name || 'unknown tool')\<close>.\<close>

definition shown_name :: "string \<Rightarrow> string" where
  "shown_name tool = (if tool = [] then ''unknown tool'' else tool)"

definition error_text :: "string \<Rightarrow> string \<Rightarrow> string" where
  "error_text tool msg = ''Error processing tool '' @ quoted (shown_name tool) @ '': '' @ msg"

text \<open>
  The request handler: the \<^verbatim>\<open>catch\<close> turns whatever was thrown into a response (the
  line written to the error console is not part of the model).
\<close>

definition handle_call ::
  "'w fs_api \<Rightarrow> string \<Rightarrow> string \<Rightarrow> string \<Rightarrow> arguments \<Rightarrow> 'w \<Rightarrow> response \<times> 'w" where
  "handle_call fs base cwd tool args w =
     (case tool_call fs base cwd tool args w of
        (Inr r, w') \<Rightarrow> (r, w')
      | (Inl error, w') \<Rightarrow> (text_response (Plain (error_text tool (message error))), w'))"

section \<open>A reference storage\<close>

text \<open>
  An in-memory storage behind the interface: a tree as an association list from absolute
  paths to nodes. It gives the storage-dependent statements something concrete to be
  about: a write to a file whose parent directory exists replaces the content, and a
  read returns the content last written. Every error carries the \<^verbatim>\<open>code\<close> that Node
  reports for the failed system call.
\<close>

datatype node = File string | Dir

type_synonym tree = "(string \<times> node) list"

definition errno_text :: "string \<Rightarrow> string" where
  "errno_text c =
     (if c = ''ENOENT'' then ''no such file or directory''
      else if c = ''ENOTDIR'' then ''not a directory''
      else if c = ''EISDIR'' then ''illegal operation on a directory''
      else if c = ''EEXIST'' then ''file already exists''
      else if c = ''EACCES'' then ''permission denied''
      else ''unknown error'')"

definition fs_error :: "string \<Rightarrow> string \<Rightarrow> string \<Rightarrow> exn" where
  "fs_error c syscall p =
     Error (Some c) (c @ '': '' @ errno_text c @ '', '' @ syscall @ '' '' @ quoted p)"

definition missing :: "tree \<Rightarrow> string \<Rightarrow> string \<Rightarrow> exn" where
  "missing t syscall p =
     (case map_of t (posix_dirname p) of
        Some (File _) \<Rightarrow> fs_error ''ENOTDIR'' syscall p
      | _ \<Rightarrow> fs_error ''ENOENT'' syscall p)"

definition epoch :: string where
  "epoch = ''1970-01-01T00:00:00.000Z''"

fun stats_of :: "node \<Rightarrow> stats" where
  "stats_of (File c) =
     \<lparr>isDirectory = False, st_size = length c, birthtime = epoch, mtime = epoch,
      atime = epoch, mode = 33188\<rparr>"
| "stats_of Dir =
     \<lparr>isDirectory = True, st_size = 4096, birthtime = epoch, mtime = epoch,
      atime = epoch, mode = 16877\<rparr>"

definition basename :: "string \<Rightarrow> string" where
  "basename p = rev (takeWhile (\<lambda>c. c \<noteq> CHR ''/'') (rev p))"

definition mem_stat :: "string \<Rightarrow> (tree, stats) io" where
  "mem_stat p t =
     (case map_of t p of
        Some n \<Rightarrow> (Inr (stats_of n), t)
      | None \<Rightarrow> (Inl (missing t ''stat'' p), t))"

definition mem_access :: "string \<Rightarrow> (tree, unit) io" where
  "mem_access p t =
     (case map_of t p of
        Some n \<Rightarrow> (Inr (), t)
      | None \<Rightarrow> (Inl (missing t ''access'' p), t))"

definition mem_readFile :: "string \<Rightarrow> (tree, string) io" where
  "mem_readFile p t =
     (case map_of t p of
        Some (File c) \<Rightarrow> (Inr c, t)
      | Some Dir \<Rightarrow> (Inl (fs_error ''EISDIR'' ''read'' p), t)
      | None \<Rightarrow> (Inl (missing t ''open'' p), t))"

definition mem_writeFile :: "string \<Rightarrow> string \<Rightarrow> (tree, unit) io" where
  "mem_writeFile p c t =
     (case map_of t p of
        Some Dir \<Rightarrow> (Inl (fs_error ''EISDIR'' ''open'' p), t)
      | _ \<Rightarrow>
          (case map_of t (posix_dirname p) of
             Some Dir \<Rightarrow> (Inr (), AList.update p (File c) t)
           | Some (File _) \<Rightarrow> (Inl (fs_error ''ENOTDIR'' ''open'' p), t)
           | None \<Rightarrow> (Inl (fs_error ''ENOENT'' ''open'' p), t)))"

definition mem_readdir :: "string \<Rightarrow> (tree, dirent list) io" where
  "mem_readdir p t =
     (case map_of t p of
        Some Dir \<Rightarrow>
          (Inr (map (\<lambda>(q, n). \<lparr>d_name = basename q, d_isDirectory = (n = Dir)\<rparr>)
                  (filter (\<lambda>(q, n). q \<noteq> p \<and> posix_dirname q = p) t)), t)
      | Some (File _) \<Rightarrow> (Inl (fs_error ''ENOTDIR'' ''scandir'' p), t)
      | None \<Rightarrow> (Inl (missing t ''scandir'' p), t))"

text \<open>
  Recursive creation climbs to the nearest existing ancestor; the fuel bounds the climb.
  A file in the way of the climb is \<^verbatim>\<open>ENOTDIR\<close>, a file at the requested path itself is
  \<^verbatim>\<open>EEXIST\<close>; either error names the requested path.
\<close>

fun mkdir_p :: "nat \<Rightarrow> string \<Rightarrow> tree \<Rightarrow> string + tree" where
  "mkdir_p 0 q t =
     (case map_of t q of
        Some Dir \<Rightarrow> Inr t
      | Some (File _) \<Rightarrow> Inl ''ENOTDIR''
      | None \<Rightarrow> Inl ''ENOENT'')"
| "mkdir_p (Suc k) q t =
     (case map_of t q of
        Some Dir \<Rightarrow> Inr t
      | Some (File _) \<Rightarrow> Inl ''ENOTDIR''
      | None \<Rightarrow>
          (case mkdir_p k (posix_dirname q) t of
             Inl c \<Rightarrow> Inl c
           | Inr t' \<Rightarrow> Inr (AList.update q Dir t')))"

definition mem_mkdir :: "string \<Rightarrow> (tree, unit) io" where
  "mem_mkdir p t =
     (case map_of t p of
        Some (File _) \<Rightarrow> (Inl (fs_error ''EEXIST'' ''mkdir'' p), t)
      | _ \<Rightarrow>
          (case mkdir_p (length p) p t of
             Inl c \<Rightarrow> (Inl (fs_error c ''mkdir'' p), t)
           | Inr t' \<Rightarrow> (Inr (), t')))"

definition mem_rm :: "string \<Rightarrow> (tree, unit) io" where
  "mem_rm p t =
     (case map_of t p of
        None \<Rightarrow> (Inl (missing t ''rm'' p), t)
      | Some n \<Rightarrow> (Inr (), filter (\<lambda>(q, n). q \<noteq> p \<and> \<not> prefix (p @ ''/'') q) t))"

definition mem_unlink :: "string \<Rightarrow> (tree, unit) io" where
  "mem_unlink p t =
     (case map_of t p of
        Some (File c) \<Rightarrow> (Inr (), AList.delete p t)
      | Some Dir \<Rightarrow> (Inl (fs_error ''EISDIR'' ''unlink'' p), t)
      | None \<Rightarrow> (Inl (missing t ''unlink'' p), t))"

definition memfs :: "tree fs_api" where
  "memfs =
     \<lparr>fs_readdir = mem_readdir, fs_stat = mem_stat, fs_access = mem_access,
      fs_readFile = mem_readFile, fs_writeFile = mem_writeFile, fs_mkdir = mem_mkdir,
      fs_rm = mem_rm, fs_unlink = mem_unlink\<rparr>"

text \<open>
  A storage that also keeps the list of the calls made to it, oldest first: the world is
  paired with that list.
\<close>

definition logged :: "string \<Rightarrow> ('w, 'a) io \<Rightarrow> ('w \<times> string list, 'a) io" where
  "logged entry m = (\<lambda>(w, calls). case m w of (r, w') \<Rightarrow> (r, (w', calls @ [entry])))"

definition traced :: "'w fs_api \<Rightarrow> ('w \<times> string list) fs_api" where
  "traced fs =
     \<lparr>fs_readdir = (\<lambda>p. logged (''readdir '' @ p) (fs_readdir fs p)),
      fs_stat = (\<lambda>p. logged (''stat '' @ p) (fs_stat fs p)),
      fs_access = (\<lambda>p. logged (''access '' @ p) (fs_access fs p)),
      fs_readFile = (\<lambda>p. logged (''readFile '' @ p) (fs_readFile fs p)),
      fs_writeFile = (\<lambda>p c. logged (''writeFile '' @ p) (fs_writeFile fs p c)),
      fs_mkdir = (\<lambda>p. logged (''mkdir '' @ p) (fs_mkdir fs p)),
      fs_rm = (\<lambda>p. logged (''rm '' @ p) (fs_rm fs p)),
      fs_unlink = (\<lambda>p. logged (''unlink '' @ p) (fs_unlink fs p))\<rparr>"

section \<open>Specification-side definitions\<close>

text \<open>
  The operation catalogue: for each operation its name and the string arguments it
  requires, with the values a call passes to the handler.
\<close>

fun required :: "invocation \<Rightarrow> string \<times> (string \<times> string) list" where
  "required (ListDirectory p) = (''list_directory'', [(''path'', p)])"
| "required (ReadFile p) = (''read_file'', [(''path'', p)])"
| "required (WriteFile p c) = (''write_file'', [(''path'', p), (''content'', c)])"
| "required (CreateDirectory p) = (''create_directory'', [(''path'', p)])"
| "required (DeleteItem p) = (''delete_item'', [(''path'', p)])"
| "required (GetFileInfo p) = (''get_file_info'', [(''path'', p)])"

definition has_string :: "arguments \<Rightarrow> string \<times> string \<Rightarrow> bool" where
  "has_string args kv =
     (case args of None \<Rightarrow> False | Some a \<Rightarrow> a (fst kv) = Some (JStr (snd kv)))"

text \<open>
  A call is well formed for an invocation when it names that operation and the argument
  bag holds each required argument as a string with that value.
\<close>

definition well_formed :: "string \<Rightarrow> arguments \<Rightarrow> invocation \<Rightarrow> bool" where
  "well_formed tool args call =
     (fst (required call) = tool \<and> list_all (has_string args) (snd (required call)))"

text \<open>The path argument of an invocation: the caller's original path.\<close>

fun path_of :: "invocation \<Rightarrow> string" where
  "path_of (ListDirectory p) = p"
| "path_of (ReadFile p) = p"
| "path_of (WriteFile p c) = p"
| "path_of (CreateDirectory p) = p"
| "path_of (DeleteItem p) = p"
| "path_of (GetFileInfo p) = p"



text \<open>
  What the storage answers when \<^verbatim>\<open>stat\<close> is called on the given paths one after the
  other, and the path of a child of a listed directory.
\<close>

fun stat_answers :: "'w fs_api \<Rightarrow> string list \<Rightarrow> 'w \<Rightarrow> (exn + stats) list \<times> 'w" where
  "stat_answers fs [] w = ([], w)"
| "stat_answers fs (p # ps) w =
     (case fs_stat fs p w of
        (a, w') \<Rightarrow> (case stat_answers fs ps w' of (as, w'') \<Rightarrow> (a # as, w'')))"

definition child_path :: "string \<Rightarrow> dirent \<Rightarrow> string" where
  "child_path dir item = posix_join [dir, d_name item]"

text \<open>Reading a serialised object: a field by its key, and the keys in order.\<close>

fun field :: "json \<Rightarrow> string \<Rightarrow> json option" where
  "field (JObj kvs) k = map_of kvs k"
| "field v k = None"

fun keys :: "json \<Rightarrow> string list" where
  "keys (JObj kvs) = map fst kvs"
| "keys v = []"

text \<open>The successful response of a listing with the given entries.\<close>

definition listing :: "string \<Rightarrow> json list \<Rightarrow> response" where
  "listing dirPath entries =
     text_response (Stringify (JObj [(''path'', JStr dirPath), (''contents'', JArr entries)]))"

text \<open>
  A storage on which \<^verbatim>\<open>stat\<close> is refused for the given paths, as happens to a child that
  was removed after the enumeration or that may not be examined.
\<close>

definition unstatable :: "string list \<Rightarrow> 'w fs_api \<Rightarrow> 'w fs_api" where
  "unstatable ps fs =
     fs\<lparr>fs_stat := (\<lambda>p w. if p \<in> set ps then (Inl (fs_error ''EACCES'' ''stat'' p), w)
                          else fs_stat fs p w)\<rparr>"

text \<open>A small world for the examples: the root \<^verbatim>\<open>/sandbox\<close> with a file and a directory.\<close>

definition example_tree :: tree where
  "example_tree = [(''/sandbox'', Dir), (''/sandbox/a'', File ''hi''), (''/sandbox/b'', Dir)]"

definition example_items :: "dirent list" where
  "example_items =
     [\<lparr>d_name = ''a'', d_isDirectory = False\<rparr>, \<lparr>d_name = ''b'', d_isDirectory = True\<rparr>]"

text \<open>
  The meaning of a path as a place in the tree. A path is cut at the separators; its
  segments are the non-empty pieces. Walking the segments from the top, \<^verbatim>\<open>.\<close> stays,
  \<^verbatim>\<open>..\<close> goes to the parent (the top is its own parent), any other segment enters the
  child of that name. \<open>location p\<close> is the list of names from the top down to where the
  absolute path \<open>p\<close> leads, and \<open>join\<close> writes such a list with separators between the
  names.
\<close>

fun join :: "string list \<Rightarrow> string" where
  "join [] = []"
| "join [s] = s"
| "join (s # t # ss) = s @ ''/'' @ join (t # ss)"

fun split_sep :: "string \<Rightarrow> string list" where
  "split_sep [] = [[]]"
| "split_sep (c # cs) =
     (if c = CHR ''/'' then [] # split_sep cs
      else (case split_sep cs of [] \<Rightarrow> [[c]] | s # ss \<Rightarrow> (c # s) # ss))"

definition segments :: "string \<Rightarrow> string list" where
  "segments p = filter (\<lambda>s. s \<noteq> []) (split_sep p)"

definition enter :: "string list \<Rightarrow> string \<Rightarrow> string list" where
  "enter stack s =
     (if s = ''.'' then stack else if s = ''..'' then butlast stack else stack @ [s])"

definition location :: "string \<Rightarrow> string list" where
  "location p = foldl enter [] (segments p)"

text \<open>
  The reference algorithm of the specification for path validation: join the root and
  the request path; fully normalise the result (collapse \<^verbatim>\<open>.\<close> and \<^verbatim>\<open>..\<close> segments, resolve
  redundant separators); normalise the root the same way; accept when the normalised
  result equals the normalised root, or begins with the normalised root followed by a
  separator. The root is an absolute path, so the normal form of a path is the separator
  followed by the names of its location. The separator after the normalised root is
  appended conceptually: a root whose normal form already ends in the separator (the top
  of the tree) gets no second one. \<open>spec_contains\<close> is the comparison on a path that is
  already joined, \<open>spec_accepts\<close> the whole algorithm on a request path.
\<close>

definition spec_join :: "string \<Rightarrow> string \<Rightarrow> string" where
  "spec_join root requestPath = root @ sep @ requestPath"

definition spec_normalize :: "string \<Rightarrow> string" where
  "spec_normalize q = CHR ''/'' # join (location q)"

definition with_separator :: "string \<Rightarrow> string" where
  "with_separator n = (if n \<noteq> [] \<and> last n = CHR ''/'' then n else n @ sep)"

definition spec_contains :: "string \<Rightarrow> string \<Rightarrow> bool" where
  "spec_contains root q =
     (let r = spec_normalize q; n = spec_normalize root
      in r = n \<or> startsWith r (with_separator n))"

definition spec_accepts :: "string \<Rightarrow> string \<Rightarrow> bool" where
  "spec_accepts root requestPath = spec_contains root (spec_join root requestPath)"

text \<open>
  Auxiliary notions for the proofs about \<^verbatim>\<open>normalizeString\<close>: a plain name, a list of
  names free of \<^verbatim>\<open>.\<close> and \<^verbatim>\<open>..\<close>, the counter \<^verbatim>\<open>dots\<close> as a function of the current segment,
  the stack that the loop state stands for, where a resolution against an absolute root
  leads, and a string that does not begin with the separator.
\<close>

definition plain :: "string \<Rightarrow> bool" where
  "plain s = (s \<noteq> [] \<and> CHR ''/'' \<notin> set s)"

definition clean :: "string list \<Rightarrow> bool" where
  "clean ss = (\<forall>s\<in>set ss. plain s \<and> s \<noteq> ''.'' \<and> s \<noteq> ''..'')"

definition dotcount :: "string \<Rightarrow> int" where
  "dotcount s = (if set s \<subseteq> {CHR ''.''} then int (length s) else -1)"

definition push :: "string list \<Rightarrow> string \<Rightarrow> string list" where
  "push stack cur = (if cur = [] then stack else enter stack cur)"

definition tracks :: "ns_state \<Rightarrow> string list \<Rightarrow> bool" where
  "tracks st stack =
     (res st = join stack \<and> clean stack \<and>
      (stack \<noteq> [] \<longrightarrow> lastSegmentLength st = int (length (last stack))) \<and>
      CHR ''/'' \<notin> set (seg st) \<and> dots st = dotcount (seg st))"

definition target :: "string \<Rightarrow> string \<Rightarrow> string list" where
  "target base p =
     (if p \<noteq> [] \<and> hd p = CHR ''/'' then location p
      else foldl enter (location base) (segments p))"

definition unrooted :: "string \<Rightarrow> bool" where
  "unrooted s = (s = [] \<or> hd s \<noteq> CHR ''/'')"

section \<open>Dispatch\<close>

lemma arg_string_Some: "(arg_string args k = Some s) = has_string args (k, s)"
  by (auto simp: arg_string_def has_string_def split: option.splits json.splits)

lemma select_Inr: "(select_handler tool args = Inr call) = well_formed tool args call"
  unfolding select_handler_def well_formed_def missing_path_def
  by (cases call) (auto simp: arg_string_Some[symmetric] split: option.splits)

lemma handle_call_rejected:
  "select_handler tool args = Inl e \<Longrightarrow>
   handle_call fs base cwd tool args w = (text_response (Plain (error_text tool (message e))), w)"
  by (simp add: handle_call_def tool_call_def throw_def)

lemma tool_call_selected:
  "select_handler tool args = Inr call \<Longrightarrow>
   tool_call fs base cwd tool args = invoke fs base cwd call"
  by (simp add: tool_call_def)

text \<open>
  Claim C5. The dispatcher selects a handler exactly for the well-formed calls: the name
  is one of the six operations and each required argument is present as a string. A
  well-formed call runs that one handler and nothing else. A call that is well formed
  for no invocation (unknown name, missing or mistyped argument) is answered with an
  error response while the world stays as it was, whatever the storage: no handler ran.
\<close>

theorem dispatch_guards:
  "(select_handler tool args = Inr call) = well_formed tool args call \<and>
   (well_formed tool args call \<longrightarrow> tool_call fs base cwd tool args = invoke fs base cwd call) \<and>
   ((\<forall>c. \<not> well_formed tool args c) \<longrightarrow>
      (\<exists>e. select_handler tool args = Inl e \<and>
           handle_call fs base cwd tool args w =
             (text_response (Plain (error_text tool (message e))), w)))"
proof (intro conjI impI)
  show "(select_handler tool args = Inr call) = well_formed tool args call"
    by (rule select_Inr)
next
  assume "well_formed tool args call"
  then show "tool_call fs base cwd tool args = invoke fs base cwd call"
    by (simp add: select_Inr tool_call_selected)
next
  assume none: "\<forall>c. \<not> well_formed tool args c"
  obtain e where e: "select_handler tool args = Inl e"
    using none by (cases "select_handler tool args") (auto simp: select_Inr)
  with handle_call_rejected[OF e, of fs base cwd w]
  show "\<exists>e. select_handler tool args = Inl e \<and>
           handle_call fs base cwd tool args w =
             (text_response (Plain (error_text tool (message e))), w)"
    by blast
qed

lemma well_formed_write_example:
  "well_formed ''write_file'' (Some [''path'' \<mapsto> JStr ''a.txt'', ''content'' \<mapsto> JStr ''hi''])
     (WriteFile ''a.txt'' ''hi'')"
  by (simp add: well_formed_def has_string_def)

lemma ill_formed_write_example:
  "\<not> well_formed ''write_file'' (Some [''path'' \<mapsto> JStr ''a.txt'', ''content'' \<mapsto> JNum 3]) c"
  by (cases c) (simp_all add: well_formed_def has_string_def)

theorem dispatch_guards_witness:
  "well_formed ''write_file'' (Some [''path'' \<mapsto> JStr ''a.txt'', ''content'' \<mapsto> JStr ''hi''])
      (WriteFile ''a.txt'' ''hi'') \<and>
   select_handler ''write_file'' (Some [''path'' \<mapsto> JStr ''a.txt'', ''content'' \<mapsto> JStr ''hi''])
      = Inr (WriteFile ''a.txt'' ''hi'') \<and>
   tool_call (traced memfs) ''/sandbox'' ''/'' ''write_file''
      (Some [''path'' \<mapsto> JStr ''a.txt'', ''content'' \<mapsto> JStr ''hi''])
      = writeFile (traced memfs) ''/sandbox'' ''/'' ''a.txt'' ''hi'' \<and>
   (\<forall>c. \<not> well_formed ''write_file''
           (Some [''path'' \<mapsto> JStr ''a.txt'', ''content'' \<mapsto> JNum 3]) c) \<and>
   (\<exists>e. select_handler ''write_file''
           (Some [''path'' \<mapsto> JStr ''a.txt'', ''content'' \<mapsto> JNum 3]) = Inl e \<and>
        handle_call (traced memfs) ''/sandbox'' ''/'' ''write_file''
          (Some [''path'' \<mapsto> JStr ''a.txt'', ''content'' \<mapsto> JNum 3]) ([(''/sandbox'', Dir)], [])
        = (text_response (Plain (error_text ''write_file'' (message e))),
           ([(''/sandbox'', Dir)], [])))"
  using dispatch_guards[of "''write_file''"
          "Some [''path'' \<mapsto> JStr ''a.txt'', ''content'' \<mapsto> JStr ''hi'']"
          "WriteFile ''a.txt'' ''hi''" "traced memfs" "''/sandbox''" "''/''"]
        dispatch_guards[of "''write_file''"
          "Some [''path'' \<mapsto> JStr ''a.txt'', ''content'' \<mapsto> JNum 3]"
          "WriteFile ''a.txt'' ''hi''" "traced memfs" "''/sandbox''" "''/''"
          "([(''/sandbox'', Dir)], [])"]
        well_formed_write_example ill_formed_write_example
  by simp

section \<open>Rejected paths and the storage\<close>

lemma validated_reject:
  "validatePath base cwd p = Inl msg \<Longrightarrow> validated base cwd p w = (Inl (new_Error msg), w)"
  by (simp add: validated_def throw_def)

lemma validatePath_Inl: "validatePath base cwd p = Inl msg \<Longrightarrow> msg = access_denied p"
  by (auto simp: validatePath_def Let_def split: if_splits)

lemma invoke_rejected:
  assumes "validatePath base cwd (path_of call) = Inl msg"
  shows "invoke fs base cwd call w = (Inl (new_Error msg), w)"
  using validated_reject[OF assms, of w]
  by (cases call)
     (simp_all add: listDirectory_def readFile_def writeFile_def createDirectory_def
        deleteItem_def getFileInfo_def await_def)

text \<open>
  Claim C6. When validation rejects the path of a call, the handler (whichever of the
  six it is) throws the access-denied error and returns the world exactly as it was
  given. This holds for every storage, so also for one that records each call made to
  it: no storage operation was performed. The request as a whole is then answered with
  the error response, again in the unchanged world.
\<close>

theorem rejected_path_never_reaches_storage:
  assumes "validatePath base cwd (path_of call) = Inl msg"
  shows "msg = access_denied (path_of call) \<and>
         invoke fs base cwd call w = (Inl (new_Error msg), w) \<and>
         (select_handler tool args = Inr call \<longrightarrow>
            handle_call fs base cwd tool args w =
              (text_response (Plain (error_text tool msg)), w))"
  using validatePath_Inl[OF assms] invoke_rejected[OF assms, of fs w]
  by (simp add: handle_call_def tool_call_def new_Error_def)

lemma etc_rejected:
  "validatePath ''/sandbox'' ''/'' (path_of (ListDirectory ''../../etc''))
     = Inl (access_denied ''../../etc'')"
  by code_simp

lemma etc_selected:
  "select_handler ''list_directory'' (Some [''path'' \<mapsto> JStr ''../../etc''])
     = Inr (ListDirectory ''../../etc'')"
  by (simp add: select_handler_def arg_string_def)

theorem rejected_path_never_reaches_storage_witness:
  "validatePath ''/sandbox'' ''/'' (path_of (ListDirectory ''../../etc''))
     = Inl (access_denied ''../../etc'') \<and>
   select_handler ''list_directory'' (Some [''path'' \<mapsto> JStr ''../../etc''])
     = Inr (ListDirectory ''../../etc'') \<and>
   listDirectory (traced memfs) ''/sandbox'' ''/'' ''../../etc'' ([(''/etc'', Dir)], [])
     = (Inl (new_Error (access_denied ''../../etc'')), ([(''/etc'', Dir)], [])) \<and>
   handle_call (traced memfs) ''/sandbox'' ''/'' ''list_directory''
       (Some [''path'' \<mapsto> JStr ''../../etc'']) ([(''/etc'', Dir)], [])
     = (text_response (Plain (error_text ''list_directory'' (access_denied ''../../etc''))),
        ([(''/etc'', Dir)], []))"
  using rejected_path_never_reaches_storage[OF etc_rejected, of "traced memfs"
          "([(''/etc'', Dir)], [])" "''list_directory''" "Some [''path'' \<mapsto> JStr ''../../etc'']"]
        etc_rejected etc_selected
  by simp

section \<open>Listing a directory\<close>

lemma list_item_answer:
  "fs_stat fs (child_path dir item) w = (a, w') \<Longrightarrow>
   list_item fs dir item w =
     (case a of
        Inl e \<Rightarrow> JObj [(''name'', JStr (d_name item)),
                       (''type'', JStr (kind_of (d_isDirectory item))),
                       (''error'', JStr ''Could not retrieve stats for this item.'')]
      | Inr st \<Rightarrow> JObj [(''name'', JStr (d_name item)),
                        (''type'', JStr (kind_of (d_isDirectory item))),
                        (''size'', JNum (int (st_size st))),
                        (''modified'', JStr (mtime st))], w')"
  by (simp add: list_item_def child_path_def split: sum.splits)

lemma list_items_world:
  "stat_answers fs (map (child_path dir) items) w = (answers, w') \<Longrightarrow>
   snd (list_items fs dir items w) = w' \<and>
   length (fst (list_items fs dir items w)) = length items"
proof (induction items arbitrary: w answers)
  case Nil
  then show ?case by simp
next
  case (Cons item items)
  obtain a w1 where a: "fs_stat fs (child_path dir item) w = (a, w1)"
    by (cases "fs_stat fs (child_path dir item) w")
  obtain as w2 where as: "stat_answers fs (map (child_path dir) items) w1 = (as, w2)"
    by (cases "stat_answers fs (map (child_path dir) items) w1")
  from Cons.prems a as have "w2 = w'" by simp
  with as have as': "stat_answers fs (map (child_path dir) items) w1 = (as, w')" by simp
  from Cons.IH[OF as'] list_item_answer[OF a] show ?case
    by (auto split: prod.splits sum.splits)
qed

lemma list_items_nth:
  "stat_answers fs (map (child_path dir) items) w = (answers, w') \<Longrightarrow> i < length items \<Longrightarrow>
   fst (list_items fs dir items w) ! i =
     (case answers ! i of
        Inl e \<Rightarrow> JObj [(''name'', JStr (d_name (items ! i))),
                       (''type'', JStr (kind_of (d_isDirectory (items ! i)))),
                       (''error'', JStr ''Could not retrieve stats for this item.'')]
      | Inr st \<Rightarrow> JObj [(''name'', JStr (d_name (items ! i))),
                        (''type'', JStr (kind_of (d_isDirectory (items ! i)))),
                        (''size'', JNum (int (st_size st))),
                        (''modified'', JStr (mtime st))])"
proof (induction items arbitrary: w answers i)
  case Nil
  then show ?case by simp
next
  case (Cons item items)
  obtain a w1 where a: "fs_stat fs (child_path dir item) w = (a, w1)"
    by (cases "fs_stat fs (child_path dir item) w")
  obtain as w2 where as: "stat_answers fs (map (child_path dir) items) w1 = (as, w2)"
    by (cases "stat_answers fs (map (child_path dir) items) w1")
  from Cons.prems a as have ans: "answers = a # as" by simp
  from Cons.prems a as have "w2 = w'" by simp
  with as have as': "stat_answers fs (map (child_path dir) items) w1 = (as, w')" by simp
  show ?case
  proof (cases i)
    case 0
    have "i = 0" by (rule 0)
    with list_item_answer[OF a] ans show ?thesis
      by (auto split: prod.splits sum.splits)
  next
    case (Suc j)
    with Cons.prems have j: "j < length items" by simp
    from Cons.IH[OF as' j] list_item_answer[OF a] ans Suc show ?thesis
      by (auto split: prod.splits sum.splits)
  qed
qed

lemma listDirectory_result:
  assumes "validatePath base cwd dirPath = Inr safePath"
      and "fs_readdir fs safePath w = (Inr items, w1)"
      and "stat_answers fs (map (child_path safePath) items) w1 = (answers, w2)"
  shows "listDirectory fs base cwd dirPath w =
           (Inr (listing dirPath (fst (list_items fs safePath items w1))), w2)"
  using assms(1,2) list_items_world[OF assms(3)]
  by (auto simp: listDirectory_def validated_def await_def return_def listing_def
           split: prod.splits)

lemma listing_inject: "listing d es = listing d' es' \<Longrightarrow> es = es'"
  by (simp add: listing_def text_response_def)

text \<open>
  Claim C8. Once the path is valid and the enumeration of the directory succeeded, the
  listing succeeds whatever the storage answers to the \<^verbatim>\<open>stat\<close> calls on the children.
  It has one entry per child, in order, under the child's name and with the kind
  (directory or file) that the enumeration reported. Where \<^verbatim>\<open>stat\<close> failed the entry
  carries the error marker and neither size nor modification time; every other entry
  consists of exactly the name, the kind, and the size and modification time that
  \<^verbatim>\<open>stat\<close> reported, with no error marker.
\<close>

theorem listDirectory_survives_stat_failures:
  assumes "validatePath base cwd dirPath = Inr safePath"
      and "fs_readdir fs safePath w = (Inr items, w1)"
      and "stat_answers fs (map (child_path safePath) items) w1 = (answers, w2)"
  shows "\<exists>entries.
           listDirectory fs base cwd dirPath w = (Inr (listing dirPath entries), w2) \<and>
           length entries = length items \<and>
           (\<forall>i<length items.
              field (entries ! i) ''name'' = Some (JStr (d_name (items ! i))) \<and>
              field (entries ! i) ''type''
                = Some (JStr (if d_isDirectory (items ! i) then ''directory'' else ''file'')) \<and>
              (case answers ! i of
                 Inl e \<Rightarrow>
                   field (entries ! i) ''error'' \<noteq> None \<and>
                   field (entries ! i) ''size'' = None \<and>
                   field (entries ! i) ''modified'' = None
               | Inr st \<Rightarrow>
                   field (entries ! i) ''error'' = None \<and>
                   field (entries ! i) ''size'' = Some (JNum (int (st_size st))) \<and>
                   field (entries ! i) ''modified'' = Some (JStr (mtime st)) \<and>
                   keys (entries ! i) = [''name'', ''type'', ''size'', ''modified'']))"
proof (intro exI conjI allI impI)
  show "listDirectory fs base cwd dirPath w =
          (Inr (listing dirPath (fst (list_items fs safePath items w1))), w2)"
    by (rule listDirectory_result[OF assms])
  show "length (fst (list_items fs safePath items w1)) = length items"
    using list_items_world[OF assms(3)] by simp
next
  fix i assume i: "i < length items"
  show "field (fst (list_items fs safePath items w1) ! i) ''name'' = Some (JStr (d_name (items ! i)))"
    using list_items_nth[OF assms(3) i] by (simp split: sum.splits)
  show "field (fst (list_items fs safePath items w1) ! i) ''type''
          = Some (JStr (if d_isDirectory (items ! i) then ''directory'' else ''file''))"
    using list_items_nth[OF assms(3) i] by (simp add: kind_of_def split: sum.splits)
  show "case answers ! i of
          Inl e \<Rightarrow>
            field (fst (list_items fs safePath items w1) ! i) ''error'' \<noteq> None \<and>
            field (fst (list_items fs safePath items w1) ! i) ''size'' = None \<and>
            field (fst (list_items fs safePath items w1) ! i) ''modified'' = None
        | Inr st \<Rightarrow>
            field (fst (list_items fs safePath items w1) ! i) ''error'' = None \<and>
            field (fst (list_items fs safePath items w1) ! i) ''size''
              = Some (JNum (int (st_size st))) \<and>
            field (fst (list_items fs safePath items w1) ! i) ''modified''
              = Some (JStr (mtime st)) \<and>
            keys (fst (list_items fs safePath items w1) ! i)
              = [''name'', ''type'', ''size'', ''modified'']"
    using list_items_nth[OF assms(3) i] by (simp split: sum.splits)
qed

lemma example_dot_valid: "validatePath ''/sandbox'' ''/'' ''.'' = Inr ''/sandbox''"
  by code_simp

lemma example_readdir:
  "fs_readdir (unstatable [''/sandbox/b''] memfs) ''/sandbox'' example_tree
     = (Inr example_items, example_tree)"
  by code_simp

lemma example_stat_answers:
  "stat_answers (unstatable [''/sandbox/b''] memfs) (map (child_path ''/sandbox'') example_items)
     example_tree
     = ([Inr (stats_of (File ''hi'')), Inl (fs_error ''EACCES'' ''stat'' ''/sandbox/b'')],
        example_tree)"
  by code_simp

theorem listDirectory_survives_stat_failures_witness:
  "validatePath ''/sandbox'' ''/'' ''.'' = Inr ''/sandbox'' \<and>
   fs_readdir (unstatable [''/sandbox/b''] memfs) ''/sandbox'' example_tree
     = (Inr example_items, example_tree) \<and>
   stat_answers (unstatable [''/sandbox/b''] memfs) (map (child_path ''/sandbox'') example_items)
     example_tree
     = ([Inr (stats_of (File ''hi'')), Inl (fs_error ''EACCES'' ''stat'' ''/sandbox/b'')],
        example_tree) \<and>
   (\<exists>entries.
      listDirectory (unstatable [''/sandbox/b''] memfs) ''/sandbox'' ''/'' ''.'' example_tree
        = (Inr (listing ''.'' entries), example_tree) \<and>
      length entries = 2 \<and>
      field (entries ! 0) ''name'' = Some (JStr ''a'') \<and>
      field (entries ! 0) ''type'' = Some (JStr ''file'') \<and>
      field (entries ! 0) ''error'' = None \<and>
      field (entries ! 0) ''size'' = Some (JNum 2) \<and>
      keys (entries ! 0) = [''name'', ''type'', ''size'', ''modified''] \<and>
      field (entries ! 1) ''name'' = Some (JStr ''b'') \<and>
      field (entries ! 1) ''type'' = Some (JStr ''directory'') \<and>
      field (entries ! 1) ''error'' \<noteq> None \<and>
      field (entries ! 1) ''size'' = None \<and>
      field (entries ! 1) ''modified'' = None)"
proof -
  from listDirectory_survives_stat_failures
         [OF example_dot_valid example_readdir example_stat_answers]
  obtain entries where
    l: "listDirectory (unstatable [''/sandbox/b''] memfs) ''/sandbox'' ''/'' ''.'' example_tree
          = (Inr (listing ''.'' entries), example_tree)" and
    n: "length entries = length example_items" and
    e: "\<forall>i<length example_items.
          field (entries ! i) ''name'' = Some (JStr (d_name (example_items ! i))) \<and>
          field (entries ! i) ''type''
            = Some (JStr (if d_isDirectory (example_items ! i) then ''directory'' else ''file'')) \<and>
          (case [Inr (stats_of (File ''hi'')),
                 Inl (fs_error ''EACCES'' ''stat'' ''/sandbox/b'')] ! i of
             Inl e \<Rightarrow>
               field (entries ! i) ''error'' \<noteq> None \<and>
               field (entries ! i) ''size'' = None \<and>
               field (entries ! i) ''modified'' = None
           | Inr st \<Rightarrow>
               field (entries ! i) ''error'' = None \<and>
               field (entries ! i) ''size'' = Some (JNum (int (st_size st))) \<and>
               field (entries ! i) ''modified'' = Some (JStr (mtime st)) \<and>
               keys (entries ! i) = [''name'', ''type'', ''size'', ''modified''])"
    by blast
  have two: "length example_items = 2" by (simp add: example_items_def)
  have e0:
    "field (entries ! 0) ''name'' = Some (JStr ''a'') \<and>
     field (entries ! 0) ''type'' = Some (JStr ''file'') \<and>
     field (entries ! 0) ''error'' = None \<and>
     field (entries ! 0) ''size'' = Some (JNum 2) \<and>
     keys (entries ! 0) = [''name'', ''type'', ''size'', ''modified'']"
    using e[rule_format, of 0] two by (simp add: example_items_def)
  have e1:
    "field (entries ! 1) ''name'' = Some (JStr ''b'') \<and>
     field (entries ! 1) ''type'' = Some (JStr ''directory'') \<and>
     field (entries ! 1) ''error'' \<noteq> None \<and>
     field (entries ! 1) ''size'' = None \<and>
     field (entries ! 1) ''modified'' = None"
    using e[rule_format, of 1] two by (simp add: example_items_def)
  from l n two e0 e1 example_dot_valid example_readdir example_stat_answers
  show ?thesis by auto
qed

text \<open>
  Claim C10. In a listing, the entry of a child whose \<^verbatim>\<open>stat\<close> failed consists of exactly
  three fields: the child's name, its kind as the enumeration reported it (directory or
  file), and the error marker. It has no size field and no modification time.
\<close>

theorem degraded_entry_shape:
  assumes "validatePath base cwd dirPath = Inr safePath"
      and "fs_readdir fs safePath w = (Inr items, w1)"
      and "stat_answers fs (map (child_path safePath) items) w1 = (answers, w2)"
      and "listDirectory fs base cwd dirPath w = (Inr (listing dirPath entries), w')"
      and "i < length items"
      and "answers ! i = Inl e"
  shows "entries ! i =
           JObj [(''name'', JStr (d_name (items ! i))),
                 (''type'', JStr (if d_isDirectory (items ! i) then ''directory'' else ''file'')),
                 (''error'', JStr ''Could not retrieve stats for this item.'')] \<and>
         keys (entries ! i) = [''name'', ''type'', ''error''] \<and>
         field (entries ! i) ''size'' = None \<and>
         field (entries ! i) ''modified'' = None"
proof -
  from listDirectory_result[OF assms(1-3)] assms(4)
  have "entries = fst (list_items fs safePath items w1)"
    by (auto dest: listing_inject)
  with list_items_nth[OF assms(3,5)] assms(6) show ?thesis
    by (simp add: kind_of_def)
qed

lemma example_listing:
  "listDirectory (unstatable [''/sandbox/b''] memfs) ''/sandbox'' ''/'' ''.'' example_tree
     = (Inr (listing ''.''
          [JObj [(''name'', JStr ''a''), (''type'', JStr ''file''), (''size'', JNum 2),
                 (''modified'', JStr epoch)],
           JObj [(''name'', JStr ''b''), (''type'', JStr ''directory''),
                 (''error'', JStr ''Could not retrieve stats for this item.'')]]),
        example_tree)"
  by code_simp

theorem degraded_entry_shape_witness:
  "listDirectory (unstatable [''/sandbox/b''] memfs) ''/sandbox'' ''/'' ''.'' example_tree
     = (Inr (listing ''.''
          [JObj [(''name'', JStr ''a''), (''type'', JStr ''file''), (''size'', JNum 2),
                 (''modified'', JStr epoch)],
           JObj [(''name'', JStr ''b''), (''type'', JStr ''directory''),
                 (''error'', JStr ''Could not retrieve stats for this item.'')]]),
        example_tree) \<and>
   (1::nat) < length example_items \<and>
   [Inr (stats_of (File ''hi'')), Inl (fs_error ''EACCES'' ''stat'' ''/sandbox/b'')] ! 1
     = Inl (fs_error ''EACCES'' ''stat'' ''/sandbox/b'') \<and>
   keys ([JObj [(''name'', JStr ''a''), (''type'', JStr ''file''), (''size'', JNum 2),
                (''modified'', JStr epoch)],
          JObj [(''name'', JStr ''b''), (''type'', JStr ''directory''),
                (''error'', JStr ''Could not retrieve stats for this item.'')]] ! 1)
     = [''name'', ''type'', ''error'']"
proof -
  have i: "(1::nat) < length example_items" by (simp add: example_items_def)
  have a: "[Inr (stats_of (File ''hi'')), Inl (fs_error ''EACCES'' ''stat'' ''/sandbox/b'')] ! 1
             = Inl (fs_error ''EACCES'' ''stat'' ''/sandbox/b'')" by simp
  from degraded_entry_shape
         [OF example_dot_valid example_readdir example_stat_answers example_listing i a]
       example_listing i a
  show ?thesis by simp
qed

section \<open>Errors at the boundary\<close>

















section \<open>Resolution of absolute inputs\<close>

text \<open>
  Claim C2, as amended. An input that begins with the separator is resolved on its own:
  the result is the same for every root and working directory, namely the resolution of
  the input alone, and a path returned by validation for such an input is that
  resolution. The root is not prepended.
\<close>

theorem absolute_input_ignores_root:
  assumes "p \<noteq> []" and "hd p = CHR ''/''"
  shows "posix_resolve cwd [base, p] = posix_resolve cwd' [base', p] \<and>
         posix_resolve cwd [base, p] = posix_resolve cwd' [p] \<and>
         (validatePath base cwd p = Inr r \<longrightarrow> r = posix_resolve cwd' [p])"
  using assms by (auto simp: posix_resolve_def validatePath_def Let_def split: if_splits)

theorem absolute_input_ignores_root_witness:
  "''/sandbox/x'' \<noteq> [] \<and> hd ''/sandbox/x'' = CHR ''/'' \<and>
   posix_resolve ''/'' [''/sandbox'', ''/sandbox/x'']
     = posix_resolve ''/home'' [''/other'', ''/sandbox/x''] \<and>
   posix_resolve ''/'' [''/sandbox'', ''/sandbox/x''] = posix_resolve ''/home'' [''/sandbox/x''] \<and>
   validatePath ''/sandbox'' ''/'' ''/sandbox/x'' = Inr ''/sandbox/x'' \<and>
   ''/sandbox/x'' = posix_resolve ''/home'' [''/sandbox/x'']"
proof -
  have v: "validatePath ''/sandbox'' ''/'' ''/sandbox/x'' = Inr ''/sandbox/x''"
    by code_simp
  have a: "''/sandbox/x'' \<noteq> []" and b: "hd ''/sandbox/x'' = CHR ''/''"
    by simp_all
  from absolute_input_ignores_root
         [OF a b, of "''/''" "''/sandbox''" "''/home''" "''/other''" "''/sandbox/x''"] v a b
  show ?thesis by blast
qed

text \<open>
  Claim C2 as stated fails: with the root \<^verbatim>\<open>/sandbox\<close> the input \<^verbatim>\<open>/etc\<close> resolves to
  \<^verbatim>\<open>/etc\<close>, not to the join \<^verbatim>\<open>/sandbox/etc\<close> that the relative input \<^verbatim>\<open>etc\<close> resolves to,
  and it is rejected where the relative input is accepted.
\<close>

theorem absolute_input_not_joined_counterexample:
  "posix_resolve ''/'' [''/sandbox'', ''/etc''] = ''/etc'' \<and>
   posix_join [''/sandbox'', ''/etc''] = ''/sandbox/etc'' \<and>
   posix_resolve ''/'' [''/sandbox'', ''etc''] = ''/sandbox/etc'' \<and>
   validatePath ''/sandbox'' ''/'' ''/etc'' = Inl (access_denied ''/etc'') \<and>
   validatePath ''/sandbox'' ''/'' ''etc'' = Inr ''/sandbox/etc''"
  by code_simp

section \<open>The root itself\<close>

text \<open>
  Claim C9 at a root written with a separator at its end. The inputs \<^verbatim>\<open>.\<close> and the empty
  string resolve to the root directory \<^verbatim>\<open>/sandbox\<close>, and validation rejects them, although
  it accepts what lies inside: the comparison with the normalised root can never succeed,
  because normalisation keeps the separator at the end of the root and resolution never
  produces one.
\<close>

theorem root_with_trailing_separator_rejects_itself:
  "posix_resolve ''/'' [''/sandbox/'', ''.''] = ''/sandbox'' \<and>
   validatePath ''/sandbox/'' ''/'' ''.'' = Inl (access_denied ''.'') \<and>
   posix_resolve ''/'' [''/sandbox/'', []] = ''/sandbox'' \<and>
   validatePath ''/sandbox/'' ''/'' [] = Inl (access_denied []) \<and>
   validatePath ''/sandbox/'' ''/'' ''x'' = Inr ''/sandbox/x''"
  by code_simp

section \<open>Writing and reading back\<close>

text \<open>
  Claim C7. In the reference storage, for a path that validation accepts, whose parent
  directory exists and which does not name an existing directory, writing a content
  succeeds and reading the same path afterwards returns exactly that content.
\<close>

theorem write_then_read:
  assumes "validatePath base cwd p = Inr safePath"
      and "map_of t (posix_dirname safePath) = Some Dir"
      and "map_of t safePath \<noteq> Some Dir"
  shows "\<exists>t'. writeFile memfs base cwd p c t =
                (Inr (text_response (Plain (''File written successfully: '' @ p))), t') \<and>
              readFile memfs base cwd p t' = (Inr (text_response (Plain c)), t')"
proof -
  let ?t' = "AList.update safePath (File c) t"
  have v: "validated base cwd p = return safePath"
    using assms(1) by (simp add: validated_def)
  have acc: "mem_access (posix_dirname safePath) t = (Inr (), t)"
    using assms(2) by (simp add: mem_access_def)
  have st: "try_catch
               (await (mem_stat safePath) (\<lambda>stats.
                  if isDirectory stats
                  then throw (new_Error (''Path '' @ quoted p @
                         '' is an existing directory. Cannot overwrite a directory with a file.''))
                  else return ()))
               (\<lambda>error. if code error \<noteq> Some ''ENOENT'' then throw error else return ()) t
             = (Inr (), t)"
  proof (cases "map_of t safePath")
    case None
    then show ?thesis using assms(2)
      by (simp add: try_catch_def await_def mem_stat_def missing_def fs_error_def return_def)
  next
    case (Some n)
    with assms(3) obtain d where "n = File d" by (cases n) auto
    with Some show ?thesis
      by (simp add: try_catch_def await_def mem_stat_def return_def)
  qed
  have wr: "mem_writeFile safePath c t = (Inr (), ?t')"
    using assms(2,3)
    by (cases "map_of t safePath") (auto simp: mem_writeFile_def split: node.splits)
  have w: "writeFile memfs base cwd p c t =
             (Inr (text_response (Plain (''File written successfully: '' @ p))), ?t')"
    unfolding writeFile_def Let_def v
    using acc st wr by (simp add: await_def return_def try_catch_def memfs_def)
  have look: "map_of ?t' safePath = Some (File c)"
    by (simp add: update_conv')
  have r: "readFile memfs base cwd p ?t' = (Inr (text_response (Plain c)), ?t')"
    unfolding readFile_def v
    using look by (simp add: await_def return_def memfs_def mem_stat_def mem_readFile_def)
  from w r show ?thesis by blast
qed

lemma notes_valid: "validatePath ''/sandbox'' ''/'' ''notes.txt'' = Inr ''/sandbox/notes.txt''"
  by code_simp

lemma notes_parent: "posix_dirname ''/sandbox/notes.txt'' = ''/sandbox''"
  by code_simp

theorem write_then_read_witness:
  "validatePath ''/sandbox'' ''/'' ''notes.txt'' = Inr ''/sandbox/notes.txt'' \<and>
   map_of [(''/sandbox'', Dir)] (posix_dirname ''/sandbox/notes.txt'') = Some Dir \<and>
   map_of [(''/sandbox'', Dir)] ''/sandbox/notes.txt'' \<noteq> Some Dir \<and>
   (\<exists>t'. writeFile memfs ''/sandbox'' ''/'' ''notes.txt'' ''hello'' [(''/sandbox'', Dir)] =
            (Inr (text_response (Plain (''File written successfully: '' @ ''notes.txt''))), t') \<and>
          readFile memfs ''/sandbox'' ''/'' ''notes.txt'' t'
            = (Inr (text_response (Plain ''hello'')), t'))"
  using write_then_read[OF notes_valid, of "[(''/sandbox'', Dir)]" "''hello''"]
        notes_valid notes_parent
  by simp

section \<open>Containment\<close>

lemma split_sep_nonempty [simp]: "split_sep p \<noteq> []"
  by (induction p) (auto split: list.splits)

lemma split_sep_plain: "CHR ''/'' \<notin> set s \<Longrightarrow> split_sep s = [s]"
  by (induction s) auto

lemma split_sep_append: "split_sep (a @ CHR ''/'' # b) = split_sep a @ split_sep b"
  by (induction a) (auto split: list.splits)

lemma segments_Nil [simp]: "segments [] = []"
  by (simp add: segments_def)

lemma segments_plain: "plain s \<Longrightarrow> segments s = [s]"
  by (simp add: segments_def plain_def split_sep_plain)

lemma segments_append: "segments (a @ CHR ''/'' # b) = segments a @ segments b"
  by (simp add: segments_def split_sep_append)

lemma segments_slash [simp]: "segments (CHR ''/'' # b) = segments b"
  using segments_append[of "[]" b] by simp

lemma split_sep_no_slash: "s \<in> set (split_sep p) \<Longrightarrow> CHR ''/'' \<notin> set s"
  by (induction p arbitrary: s) (auto split: if_splits list.splits)

lemma segments_are_plain: "s \<in> set (segments p) \<Longrightarrow> plain s"
  by (auto simp: segments_def plain_def dest: split_sep_no_slash)

lemma join_snoc: "join (ss @ [s]) = (if ss = [] then s else join ss @ ''/'' @ s)"
  by (induction ss rule: join.induct) auto

lemma join_eq_Nil: "\<forall>s\<in>set ss. s \<noteq> [] \<Longrightarrow> (join ss = []) = (ss = [])"
  by (induction ss rule: join.induct) auto

lemma segments_join: "\<forall>s\<in>set ss. plain s \<Longrightarrow> segments (join ss) = ss"
proof (induction ss rule: join.induct)
  case 1
  then show ?case by simp
next
  case (2 s)
  then show ?case by (simp add: segments_plain)
next
  case (3 s t ss)
  then have "segments (s @ CHR ''/'' # join (t # ss)) = segments s @ segments (join (t # ss))"
    by (simp add: segments_append)
  with 3 show ?case by (simp add: segments_plain)
qed

lemma lastIndexOf_absent: "c \<notin> set s \<Longrightarrow> lastIndexOf s c = -1"
  by (induction s) (auto simp: Let_def)

lemma lastIndexOf_last: "c \<notin> set s \<Longrightarrow> lastIndexOf (a @ c # s) c = int (length a)"
  by (induction a) (auto simp: Let_def lastIndexOf_absent)

lemma dotcount_1: "(dotcount s = 1) = (s = ''.'')"
proof
  assume "dotcount s = 1"
  then have "set s \<subseteq> {CHR ''.''}" "length s = 1"
    by (auto simp: dotcount_def split: if_splits)
  then show "s = ''.''" by (cases s) auto
qed (simp add: dotcount_def)

lemma dotcount_2: "(dotcount s = 2) = (s = ''..'')"
proof
  assume "dotcount s = 2"
  then have a: "set s \<subseteq> {CHR ''.''}" and b: "length s = 2"
    by (auto simp: dotcount_def split: if_splits)
  from b obtain x y where "s = [x, y]"
    by (cases s) (auto simp: length_Suc_conv)
  with a show "s = ''..''" by auto
qed (simp add: dotcount_def)

lemma dotcount_snoc:
  "dotcount (s @ [c]) = (if c = CHR ''.'' \<and> dotcount s \<noteq> -1 then dotcount s + 1 else -1)"
  by (auto simp: dotcount_def)

lemma clean_snoc: "clean (ss @ [s]) = (clean ss \<and> plain s \<and> s \<noteq> ''.'' \<and> s \<noteq> ''..'')"
  by (auto simp: clean_def)

lemma clean_butlast: "clean ss \<Longrightarrow> clean (butlast ss)"
  by (auto simp: clean_def dest: in_set_butlastD)

lemma clean_join_Nil: "clean ss \<Longrightarrow> (join ss = []) = (ss = [])"
  by (rule join_eq_Nil) (auto simp: clean_def plain_def)

lemma seg_ns_separator [simp]: "seg (ns_separator a st) = []"
  by (simp add: ns_separator_def ns_mark_def ns_above_def Let_def)

lemma tracks_mark: "tracks st stack \<Longrightarrow> tracks (ns_mark st) stack"
  by (simp add: tracks_def ns_mark_def dotcount_def)

lemma tracks_char:
  assumes "tracks st stack" and "c \<noteq> CHR ''/''"
  shows "tracks (ns_char False st c) stack \<and> seg (ns_char False st c) = seg st @ [c]"
  using assms
  by (auto simp: tracks_def ns_char_def isPosixPathSeparator_def dotcount_snoc)

lemma tracks_pop:
  assumes t: "tracks st stack" and d: "seg st = ''..''"
  shows "tracks (ns_separator False st) (butlast stack)"
proof (cases stack rule: rev_cases)
  case Nil
  with t have "res st = []" by (simp add: tracks_def)
  with t d Nil show ?thesis
    by (simp add: ns_separator_def ns_above_def tracks_mark tracks_def dotcount_def ns_mark_def)
next
  case (snoc ss s)
  from t snoc have cs: "clean ss" and ps: "plain s" and sd: "s \<noteq> ''..''"
    by (simp_all add: tracks_def clean_snoc)
  from t snoc have lsl: "lastSegmentLength st = int (length s)"
    by (simp add: tracks_def)
  from t d have dd: "dots st = 2" by (simp add: tracks_def dotcount_def)
  from ps have s_ne: "s \<noteq> []" and s_ns: "CHR ''/'' \<notin> set s" by (simp_all add: plain_def)
  have condA: "length (res st) < 2 \<or> lastSegmentLength st \<noteq> 2 \<or>
            last (res st) \<noteq> CHR ''.'' \<or> last (butlast (res st)) \<noteq> CHR ''.''"
  proof (rule ccontr)
    assume n: "\<not> ?thesis"
    with lsl have "length s = 2" by simp
    then obtain x y where xy: "s = [x, y]" by (cases s) (auto simp: length_Suc_conv)
    from t snoc have "res st = join (ss @ [s])" by (simp add: tracks_def)
    then obtain pre where "res st = pre @ [x, y]"
      using xy by (auto simp: join_snoc split: if_splits)
    with n have "x = CHR ''.''" "y = CHR ''.''" by (simp_all add: butlast_append)
    with xy sd show False by simp
  qed
  show ?thesis
  proof (cases "ss = []")
    case True
    with t snoc have r: "res st = s" by (simp add: tracks_def)
    with s_ns have li: "lastIndexOf (res st) CHR ''/'' = -1" by (simp add: lastIndexOf_absent)
    from r s_ne have "length (res st) \<noteq> 0" by simp
    with condA dd d li True snoc show ?thesis
      by (simp add: ns_separator_def Let_def tracks_def ns_mark_def clean_def dotcount_def)
  next
    case False
    with t snoc have r: "res st = join ss @ CHR ''/'' # s"
      by (simp add: tracks_def join_snoc)
    with s_ns have li: "lastIndexOf (res st) CHR ''/'' = int (length (join ss))"
      by (simp add: lastIndexOf_last)
    from False cs have "join ss \<noteq> []" by (simp add: clean_join_Nil)
    with r s_ne have len: "length (res st) > 2"
      by (cases "join ss"; cases s) auto
    have tk: "take (length (join ss)) (res st) = join ss" using r by simp
    have l2: "int (length (join ss)) - 1 - lastIndexOf (join ss) CHR ''/'' = int (length (last ss))"
    proof (cases ss rule: rev_cases)
      case Nil
      with False show ?thesis by simp
    next
      case (snoc ss' s')
      with cs have "CHR ''/'' \<notin> set s'" by (simp add: clean_snoc plain_def)
      then show ?thesis using snoc
        by (cases "ss' = []") (simp_all add: join_snoc lastIndexOf_absent lastIndexOf_last)
    qed
    from condA dd d li len tk l2 cs snoc False show ?thesis
      by (simp add: ns_separator_def Let_def tracks_def ns_mark_def dotcount_def)
  qed
qed

lemma tracks_separator:
  assumes t: "tracks st stack"
  shows "tracks (ns_separator False st) (push stack (seg st))"
proof -
  consider "seg st = []" | "seg st = ''.''" | "seg st = ''..''"
    | "seg st \<noteq> []" "seg st \<noteq> ''.''" "seg st \<noteq> ''..''" by blast
  then show ?thesis
  proof cases
    case 1
    with t show ?thesis by (simp add: ns_separator_def push_def tracks_mark)
  next
    case 2
    with t have "dots st = 1" by (simp add: tracks_def dotcount_def)
    with t 2 show ?thesis by (simp add: ns_separator_def push_def enter_def tracks_mark)
  next
    case 3
    with tracks_pop[OF t] show ?thesis by (simp add: push_def enter_def)
  next
    case 4
    from t have d: "dots st = dotcount (seg st)" by (simp add: tracks_def)
    with 4 have d1: "dots st \<noteq> 1" and d2: "dots st \<noteq> 2"
      by (simp_all add: dotcount_1 dotcount_2)
    from t have "res st = join stack" "clean stack" "CHR ''/'' \<notin> set (seg st)"
      by (simp_all add: tracks_def)
    with 4 d1 d2 show ?thesis
      by (auto simp: ns_separator_def push_def enter_def tracks_def ns_mark_def join_snoc
            clean_snoc plain_def clean_join_Nil dotcount_def)
  qed
qed

lemma ns_char_separator: "ns_char a st CHR ''/'' = ns_separator a st"
  by (simp add: ns_char_def isPosixPathSeparator_def)

lemma push_segments: "CHR ''/'' \<notin> set s \<Longrightarrow> foldl enter stack (segments s) = push stack s"
  by (cases "s = []") (simp_all add: push_def segments_plain plain_def)

lemma tracks_fold:
  "tracks st stack \<Longrightarrow>
   \<exists>stack'. tracks (foldl (ns_char False) st path) stack' \<and>
            push stack' (seg (foldl (ns_char False) st path))
              = foldl enter stack (segments (seg st @ path))"
proof (induction path arbitrary: st stack)
  case Nil
  then have "CHR ''/'' \<notin> set (seg st)" by (simp add: tracks_def)
  with Nil show ?case by (auto simp: push_segments)
next
  case (Cons c cs)
  show ?case
  proof (cases "c = CHR ''/''")
    case True
    let ?st1 = "ns_separator False st"
    from Cons.prems have t1: "tracks ?st1 (push stack (seg st))" by (rule tracks_separator)
    from Cons.prems have ns: "CHR ''/'' \<notin> set (seg st)" by (simp add: tracks_def)
    from Cons.IH[OF t1] obtain stack' where
      a: "tracks (foldl (ns_char False) ?st1 cs) stack'" and
      b: "push stack' (seg (foldl (ns_char False) ?st1 cs))
            = foldl enter (push stack (seg st)) (segments cs)"
      by auto
    have "foldl enter stack (segments (seg st @ c # cs))
            = foldl enter (push stack (seg st)) (segments cs)"
      using True ns by (simp add: segments_append push_segments)
    with a b True show ?thesis
      by (auto simp: ns_char_separator)
  next
    case False
    from tracks_char[OF Cons.prems False]
    have t1: "tracks (ns_char False st c) stack" and s1: "seg (ns_char False st c) = seg st @ [c]"
      by simp_all
    from Cons.IH[OF t1] s1 show ?thesis by simp
  qed
qed

lemma tracks_init: "tracks ns_init []"
  by (simp add: tracks_def ns_init_def clean_def dotcount_def)

lemma seg_after_separator:
  "path \<noteq> [] \<Longrightarrow> last path = CHR ''/'' \<Longrightarrow> seg (foldl (ns_char a) st path) = []"
proof -
  assume "path \<noteq> []" "last path = CHR ''/''"
  then have "path = butlast path @ [CHR ''/'']" by (metis append_butlast_last_id)
  then have "foldl (ns_char a) st path
               = ns_char a (foldl (ns_char a) st (butlast path)) CHR ''/''"
    by (metis foldl_append foldl_Cons foldl_Nil)
  then show ?thesis by (simp add: ns_char_separator)
qed

lemma normalizeString_absolute: "normalizeString path False = join (location path)"
proof -
  let ?st = "foldl (ns_char False) ns_init path"
  from tracks_fold[OF tracks_init, of path] obtain stack' where
    t: "tracks ?st stack'" and p: "push stack' (seg ?st) = location path"
    by (auto simp: ns_init_def location_def)
  show ?thesis
  proof (cases "path \<noteq> [] \<and> last path = CHR ''/''")
    case True
    then have "seg ?st = []" by (simp add: seg_after_separator)
    with p have "stack' = location path" by (simp add: push_def)
    with t True show ?thesis
      by (simp add: normalizeString_def isPosixPathSeparator_def tracks_def)
  next
    case False
    from tracks_separator[OF t] p have "res (ns_separator False ?st) = join (location path)"
      by (simp add: tracks_def)
    with False show ?thesis
      by (auto simp: normalizeString_def isPosixPathSeparator_def Let_def)
  qed
qed

lemma enter_clean: "clean stack \<Longrightarrow> plain s \<Longrightarrow> clean (enter stack s)"
  by (auto simp: enter_def clean_snoc clean_butlast)

lemma foldl_enter_clean: "clean stack \<Longrightarrow> \<forall>s\<in>set ss. plain s \<Longrightarrow> clean (foldl enter stack ss)"
  by (induction ss arbitrary: stack) (auto simp: enter_clean)

lemma location_clean: "clean (location p)"
  unfolding location_def
  by (rule foldl_enter_clean) (auto simp: clean_def segments_are_plain)

lemma foldl_enter_id: "clean ss \<Longrightarrow> foldl enter stack ss = stack @ ss"
  by (induction ss arbitrary: stack) (auto simp: clean_def enter_def)

lemma clean_plain: "clean ss \<Longrightarrow> \<forall>s\<in>set ss. plain s"
  by (simp add: clean_def)

lemma segments_join_clean: "clean ss \<Longrightarrow> segments (join ss) = ss"
  using segments_join[OF clean_plain] by simp

lemma location_canonical: "clean ss \<Longrightarrow> location (CHR ''/'' # join ss) = ss"
  using foldl_enter_id[of ss "[]"] by (simp add: location_def segments_join_clean)

lemma segments_trailing [simp]: "segments (a @ ''/'') = segments a"
  using segments_append[of a "[]"] by simp

lemma location_append:
  "location (a @ CHR ''/'' # b) = foldl enter (location a) (segments b)"
  by (simp add: location_def segments_append)

lemma location_trailing [simp]: "location (a @ ''/'') = location a"
  by (simp add: location_def)

lemma resolve_absolute_base:
  assumes "base \<noteq> []" "hd base = CHR ''/''"
  shows "posix_resolve cwd [base, p] = CHR ''/'' # join (target base p)"
proof -
  consider "p = []" | "p \<noteq> []" "hd p = CHR ''/''" | "p \<noteq> []" "hd p \<noteq> CHR ''/''" by blast
  then show ?thesis
  proof cases
    case 1
    with assms show ?thesis
      by (simp add: posix_resolve_def normalizeString_absolute target_def)
  next
    case 2
    with assms show ?thesis
      by (simp add: posix_resolve_def normalizeString_absolute target_def)
  next
    case 3
    have "location (base @ CHR ''/'' # p @ ''/'') = foldl enter (location base) (segments p)"
      by (simp add: location_append)
    with 3 assms show ?thesis
      by (simp add: posix_resolve_def normalizeString_absolute target_def)
  qed
qed

lemma target_clean: "clean (target base p)"
  unfolding target_def
  by (auto simp: location_clean intro!: foldl_enter_clean dest: segments_are_plain)

lemma last_join: "clean ss \<Longrightarrow> ss \<noteq> [] \<Longrightarrow> last (join ss) \<noteq> CHR ''/''"
proof (induction ss rule: rev_induct)
  case Nil
  then show ?case by simp
next
  case (snoc s ss)
  then have "s \<noteq> []" "CHR ''/'' \<notin> set s" by (simp_all add: clean_snoc plain_def)
  then have "last s \<noteq> CHR ''/''" by (metis last_in_set)
  with \<open>s \<noteq> []\<close> show ?case by (simp add: join_snoc)
qed

lemma normalize_absolute:
  assumes "q \<noteq> []" "hd q = CHR ''/''"
  shows "posix_normalize q =
           (if location q = [] then ''/''
            else CHR ''/'' # join (location q) @ (if last q = CHR ''/'' then ''/'' else []))"
  using assms location_clean[of q]
  by (auto simp: posix_normalize_def normalizeString_absolute Let_def clean_join_Nil)

lemma normalize_canonical:
  assumes "clean rs"
  shows "posix_normalize (CHR ''/'' # join rs) = CHR ''/'' # join rs"
proof (cases "rs = []")
  case True
  then show ?thesis by (simp add: normalize_absolute location_def)
next
  case False
  with assms have "last (CHR ''/'' # join rs) \<noteq> CHR ''/''"
    by (simp add: last_join clean_join_Nil)
  with assms False show ?thesis
    by (simp add: normalize_absolute location_canonical)
qed

lemma join_prefix_segments:
  assumes "clean cs" "clean rs" "prefix (join cs @ ''/'') (join rs)"
  shows "prefix cs rs"
proof -
  from assms(3) obtain rest where "join rs = join cs @ CHR ''/'' # rest"
    by (auto simp: prefix_def)
  then have "segments (join rs) = segments (join cs) @ segments rest"
    by (simp add: segments_append)
  with assms(1,2) have "rs = cs @ segments rest"
    by (simp add: segments_join_clean)
  then show ?thesis by simp
qed

lemma join_eq_segments:
  assumes "clean cs" "clean rs" "join rs = join cs @ t" "t = [] \<or> t = ''/''"
  shows "rs = cs"
proof -
  from assms(3,4) have "segments (join rs) = segments (join cs)"
    by auto
  with assms(1,2) show ?thesis by (simp add: segments_join_clean)
qed

lemma absolute_base_contained:
  assumes "base \<noteq> []" and "hd base = CHR ''/''" and "validatePath base cwd p = Inr r"
  shows "r = CHR ''/'' # join (location r) \<and> segments r = location r \<and>
         ''.'' \<notin> set (segments r) \<and> ''..'' \<notin> set (segments r) \<and>
         prefix (location base) (location r)"
proof -
  let ?rs = "target base p" and ?cs = "location base"
  have cl: "clean ?rs" by (rule target_clean)
  have cb: "clean ?cs" by (rule location_clean)
  from assms(3) have r: "r = CHR ''/'' # join ?rs"
    by (auto simp: validatePath_def Let_def resolve_absolute_base[OF assms(1,2)] split: if_splits)
  with cl have loc: "location r = ?rs" and sg: "segments r = ?rs"
    by (simp_all add: location_canonical segments_join_clean)
  from cl have nd: "''.'' \<notin> set ?rs" "''..'' \<notin> set ?rs" by (auto simp: clean_def)
  from assms(1,2) have nb: "posix_normalize (base @ sep) =
      (if ?cs = [] then ''/'' else CHR ''/'' # join ?cs @ ''/'')"
    by (simp add: normalize_absolute sep_def)
  from assms(1,2) have nb2: "posix_normalize base =
      (if ?cs = [] then ''/''
       else CHR ''/'' # join ?cs @ (if last base = CHR ''/'' then ''/'' else []))"
    by (simp add: normalize_absolute)
  from assms(3) r have acc:
    "startsWith (posix_normalize r) (posix_normalize (base @ sep)) \<or>
     posix_normalize r = posix_normalize base"
    by (auto simp: validatePath_def Let_def resolve_absolute_base[OF assms(1,2)] split: if_splits)
  have nr: "posix_normalize r = CHR ''/'' # join ?rs"
    using r cl by (simp add: normalize_canonical)
  have "prefix ?cs ?rs"
  proof (cases "?cs = []")
    case True
    then show ?thesis by simp
  next
    case False
    from acc show ?thesis
    proof
      assume "startsWith (posix_normalize r) (posix_normalize (base @ sep))"
      with nr nb False have "prefix (join ?cs @ ''/'') (join ?rs)"
        by (simp add: startsWith_def)
      with cb cl show ?thesis by (rule join_prefix_segments)
    next
      assume "posix_normalize r = posix_normalize base"
      with nr nb2 False have "join ?rs = join ?cs @ (if last base = CHR ''/'' then ''/'' else [])"
        by simp
      with cb cl have "?rs = ?cs" by (rule join_eq_segments) simp
      then show ?thesis by simp
    qed
  qed
  with r loc sg nd show ?thesis by simp
qed

lemma unrooted_take: "unrooted s \<Longrightarrow> unrooted (take n s)"
  by (cases s; cases n) (auto simp: unrooted_def)

lemma unrooted_append: "unrooted s \<Longrightarrow> s \<noteq> [] \<Longrightarrow> unrooted (s @ t)"
  by (cases s) (auto simp: unrooted_def)

lemma unrooted_separator:
  assumes "unrooted (res st)" and "CHR ''/'' \<notin> set (seg st)"
  shows "unrooted (res (ns_separator a st))"
proof -
  have sg: "seg st \<noteq> [] \<Longrightarrow> unrooted (seg st)"
    using assms(2) by (cases "seg st") (auto simp: unrooted_def)
  have dd: "unrooted ''..''" by (simp add: unrooted_def)
  have nil: "unrooted []" by (simp add: unrooted_def)
  from assms(1) sg dd nil show ?thesis
    by (auto simp: ns_separator_def ns_mark_def ns_above_def Let_def unrooted_take
          unrooted_append)
qed

lemma unrooted_fold:
  "unrooted (res st) \<Longrightarrow> CHR ''/'' \<notin> set (seg st) \<Longrightarrow>
   unrooted (res (foldl (ns_char a) st path)) \<and>
   CHR ''/'' \<notin> set (seg (foldl (ns_char a) st path))"
proof (induction path arbitrary: st)
  case Nil
  then show ?case by simp
next
  case (Cons c cs)
  show ?case
  proof (cases "c = CHR ''/''")
    case True
    with Cons.prems have "unrooted (res (ns_char a st c))"
      by (simp add: ns_char_separator unrooted_separator)
    moreover from True have "CHR ''/'' \<notin> set (seg (ns_char a st c))"
      by (simp add: ns_char_separator)
    ultimately show ?thesis using Cons.IH by simp
  next
    case False
    with Cons.prems have "unrooted (res (ns_char a st c))"
      and "CHR ''/'' \<notin> set (seg (ns_char a st c))"
      by (auto simp: ns_char_def isPosixPathSeparator_def)
    then show ?thesis using Cons.IH by simp
  qed
qed

lemma normalizeString_unrooted: "unrooted (normalizeString path a)"
proof -
  have "unrooted (res ns_init)" "CHR ''/'' \<notin> set (seg ns_init)"
    by (simp_all add: ns_init_def unrooted_def)
  from unrooted_fold[OF this, of a path] show ?thesis
    by (auto simp: normalizeString_def Let_def unrooted_separator)
qed

lemma normalize_relative:
  assumes "q \<noteq> []" "hd q \<noteq> CHR ''/''"
  shows "posix_normalize q \<noteq> [] \<and> hd (posix_normalize q) \<noteq> CHR ''/''"
proof -
  let ?n = "normalizeString q True"
  have "unrooted ?n" by (rule normalizeString_unrooted)
  then have "?n \<noteq> [] \<Longrightarrow> hd ?n \<noteq> CHR ''/''" by (simp add: unrooted_def)
  with assms show ?thesis
    by (auto simp: posix_normalize_def Let_def hd_append)
qed

lemma normalize_rooted:
  assumes "q \<noteq> []" "hd q = CHR ''/''"
  shows "posix_normalize q \<noteq> [] \<and> hd (posix_normalize q) = CHR ''/''"
  using assms by (simp add: normalize_absolute)

lemma resolve_rooted:
  assumes "cwd \<noteq> []" "hd cwd = CHR ''/''"
  shows "posix_resolve cwd [base, p] \<noteq> [] \<and> hd (posix_resolve cwd [base, p]) = CHR ''/''"
  using assms by (auto simp: posix_resolve_def)

lemma relative_base_rejects:
  assumes "cwd \<noteq> []" "hd cwd = CHR ''/''" and "base \<noteq> []" "hd base \<noteq> CHR ''/''"
  shows "validatePath base cwd p = Inl (access_denied p)"
proof -
  let ?r = "posix_resolve cwd [base, p]"
  from resolve_rooted[OF assms(1,2)] have "?r \<noteq> []" "hd ?r = CHR ''/''" by simp_all
  from normalize_rooted[OF this] have nr: "posix_normalize ?r \<noteq> []" "hd (posix_normalize ?r) = CHR ''/''"
    by simp_all
  from assms(3,4) have "base @ sep \<noteq> []" "hd (base @ sep) \<noteq> CHR ''/''" by simp_all
  from normalize_relative[OF this]
  have nb: "posix_normalize (base @ sep) \<noteq> []" "hd (posix_normalize (base @ sep)) \<noteq> CHR ''/''"
    by simp_all
  from normalize_relative[OF assms(3,4)]
  have nb2: "hd (posix_normalize base) \<noteq> CHR ''/''" by simp
  have "\<not> prefix (posix_normalize (base @ sep)) (posix_normalize ?r)"
  proof
    assume "prefix (posix_normalize (base @ sep)) (posix_normalize ?r)"
    then obtain t where "posix_normalize ?r = posix_normalize (base @ sep) @ t"
      by (auto simp: prefix_def)
    with nb(1) have "hd (posix_normalize ?r) = hd (posix_normalize (base @ sep))" by simp
    with nr nb show False by simp
  qed
  moreover from nr nb2 have "posix_normalize ?r \<noteq> posix_normalize base" by auto
  ultimately show ?thesis
    by (simp add: validatePath_def Let_def startsWith_def)
qed

lemma allowed_base_path_nonempty: "cwd \<noteq> [] \<Longrightarrow> allowed_base_path env cwd \<noteq> []"
  by (simp add: allowed_base_path_def split: option.splits)

text \<open>
  Claim C1. Let the root be what the server takes at start-up (the configured value, or
  the working directory when none is set) and let the working directory be absolute, as
  that of a process is. Whenever validation returns a path for an input, the path is
  absolute and in normal form, a separator followed by names joined by separators, with
  no empty, \<^verbatim>\<open>.\<close> or \<^verbatim>\<open>..\<close> segment left in it, and the place it leads to is the place the
  root leads to or a place below it: the names of the root's location are a prefix of
  the names of the path. Every other input is rejected with the access-denied error.
\<close>

theorem validatePath_contained:
  assumes "cwd \<noteq> []" and "hd cwd = CHR ''/''"
  shows "(validatePath (allowed_base_path env cwd) cwd p = Inr r \<longrightarrow>
            r = CHR ''/'' # join (location r) \<and> segments r = location r \<and>
            ''.'' \<notin> set (segments r) \<and> ''..'' \<notin> set (segments r) \<and>
            prefix (location (allowed_base_path env cwd)) (location r)) \<and>
         (validatePath (allowed_base_path env cwd) cwd p = Inl e \<longrightarrow> e = access_denied p)"
proof -
  let ?base = "allowed_base_path env cwd"
  have accepted: "r = CHR ''/'' # join (location r) \<and> segments r = location r \<and>
        ''.'' \<notin> set (segments r) \<and> ''..'' \<notin> set (segments r) \<and>
        prefix (location ?base) (location r)"
    if ok: "validatePath ?base cwd p = Inr r"
  proof -
    from assms(1) have ne: "?base \<noteq> []" by (rule allowed_base_path_nonempty)
    have "hd ?base = CHR ''/''"
    proof (rule ccontr)
      assume "hd ?base \<noteq> CHR ''/''"
      from relative_base_rejects[OF assms ne this, of p] ok show False by simp
    qed
    from absolute_base_contained[OF ne this ok] show ?thesis .
  qed
  have rejected: "e = access_denied p" if "validatePath ?base cwd p = Inl e"
    using that by (auto simp: validatePath_def Let_def split: if_splits)
  from accepted rejected show ?thesis by blast
qed

lemma traversal_resolved:
  "validatePath (allowed_base_path (Some ''/sandbox'') ''/'') ''/'' ''a/../b/./c//''
     = Inr ''/sandbox/b/c''"
  by code_simp

lemma traversal_rejected:
  "validatePath (allowed_base_path (Some ''/sandbox'') ''/'') ''/'' ''a/../../sandbox-evil''
     = Inl (access_denied ''a/../../sandbox-evil'')"
  by code_simp

theorem validatePath_contained_witness:
  "''/'' \<noteq> [] \<and> hd ''/'' = CHR ''/'' \<and>
   validatePath (allowed_base_path (Some ''/sandbox'') ''/'') ''/'' ''a/../b/./c//''
     = Inr ''/sandbox/b/c'' \<and>
   ''/sandbox/b/c'' = CHR ''/'' # join (location ''/sandbox/b/c'') \<and>
   ''..'' \<notin> set (segments ''/sandbox/b/c'') \<and>
   prefix (location (allowed_base_path (Some ''/sandbox'') ''/'')) (location ''/sandbox/b/c'') \<and>
   validatePath (allowed_base_path (Some ''/sandbox'') ''/'') ''/'' ''a/../../sandbox-evil''
     = Inl (access_denied ''a/../../sandbox-evil'')"
proof -
  have a: "''/'' \<noteq> []" and b: "hd ''/'' = CHR ''/''" by simp_all
  from validatePath_contained[OF a b, of "Some ''/sandbox''" "''a/../b/./c//''" "''/sandbox/b/c''"]
       traversal_resolved traversal_rejected a b
  show ?thesis by blast
qed

text \<open>
  A fact that delimits the finding on the root itself: under an absolute root that does
  not end in a separator, or that leads to the top of the tree, every input that leads
  to the root is accepted and the normal form of the root returned.
\<close>

lemma root_itself_accepted:
  assumes "base \<noteq> []" and "hd base = CHR ''/''"
      and "last base \<noteq> CHR ''/'' \<or> location base = []"
      and "target base p = location base"
  shows "validatePath base cwd p = Inr (CHR ''/'' # join (location base))"
proof -
  have r: "posix_resolve cwd [base, p] = CHR ''/'' # join (location base)"
    using resolve_absolute_base[OF assms(1,2), of cwd p] assms(4) by simp
  have "posix_normalize (CHR ''/'' # join (location base)) = CHR ''/'' # join (location base)"
    by (rule normalize_canonical) (rule location_clean)
  moreover have "posix_normalize base = CHR ''/'' # join (location base)"
    using assms(1-3) by (auto simp: normalize_absolute)
  ultimately show ?thesis
    using r by (simp add: validatePath_def Let_def)
qed

lemma root_inputs:
  assumes "base \<noteq> []" and "hd base = CHR ''/''"
  shows "target base [] = location base" and "target base ''.'' = location base"
    and "target base ''./'' = location base"
  using segments_trailing[of "''.''"]
  by (simp_all add: target_def segments_plain plain_def enter_def)

lemma root_accepts_itself:
  assumes "base \<noteq> []" and "hd base = CHR ''/''"
      and "last base \<noteq> CHR ''/'' \<or> location base = []"
  shows "validatePath base cwd [] = Inr (CHR ''/'' # join (location base))"
    and "validatePath base cwd ''.'' = Inr (CHR ''/'' # join (location base))"
    and "validatePath base cwd ''./'' = Inr (CHR ''/'' # join (location base))"
  using root_itself_accepted[OF assms] root_inputs[OF assms(1,2)] by simp_all

section \<open>Validation and the reference algorithm\<close>

lemma join_append:
  "cs \<noteq> [] \<Longrightarrow> ys \<noteq> [] \<Longrightarrow> join (cs @ ys) = join cs @ CHR ''/'' # join ys"
proof (induction cs rule: join.induct)
  case 1
  then show ?case by simp
next
  case (2 s)
  then show ?case by (cases ys) simp_all
next
  case (3 s t ss)
  then show ?case by simp
qed

lemma join_strict_prefix:
  assumes "clean cs" "clean rs" "cs \<noteq> []"
  shows "prefix (join cs @ ''/'') (join rs) = strict_prefix cs rs"
proof
  assume p: "prefix (join cs @ ''/'') (join rs)"
  with assms have "prefix cs rs" by (simp add: join_prefix_segments)
  moreover have "cs \<noteq> rs"
  proof
    assume "cs = rs"
    with p have "length (join cs @ ''/'') \<le> length (join cs)"
      by (auto dest: prefix_length_le)
    then show False by simp
  qed
  ultimately show "strict_prefix cs rs" by (simp add: strict_prefix_def)
next
  assume "strict_prefix cs rs"
  then obtain ys where ys: "rs = cs @ ys" "ys \<noteq> []"
    by (auto simp: strict_prefix_def prefix_def)
  with assms(3) have "join rs = join cs @ CHR ''/'' # join ys" by (simp add: join_append)
  then show "prefix (join cs @ ''/'') (join rs)" by simp
qed

lemma join_inject: "clean cs \<Longrightarrow> clean rs \<Longrightarrow> (join rs = join cs) = (rs = cs)"
  by (metis segments_join_clean)

lemma join_not_trailing: "clean cs \<Longrightarrow> clean rs \<Longrightarrow> cs \<noteq> [] \<Longrightarrow> join rs \<noteq> join cs @ ''/''"
proof
  assume a: "clean cs" "clean rs" "cs \<noteq> []" and e: "join rs = join cs @ ''/''"
  then have "rs = cs" by (intro join_eq_segments[of cs rs "''/''"]) simp_all
  with e show False by simp
qed

lemma spec_contains_iff: "spec_contains root q = prefix (location root) (location q)"
proof (cases "location root = []")
  case True
  then show ?thesis
    by (simp add: spec_contains_def spec_normalize_def with_separator_def startsWith_def)
next
  case False
  have c: "clean (location root)" "clean (location q)" by (rule location_clean)+
  from False c have "last (CHR ''/'' # join (location root)) \<noteq> CHR ''/''"
    by (simp add: last_join clean_join_Nil)
  then have "with_separator (CHR ''/'' # join (location root))
               = CHR ''/'' # join (location root) @ ''/''"
    by (simp add: with_separator_def sep_def)
  then have "spec_contains root q =
          (join (location q) = join (location root) \<or>
           prefix (join (location root) @ ''/'') (join (location q)))"
    by (simp add: spec_contains_def spec_normalize_def startsWith_def Let_def)
  also have "\<dots> = (location q = location root \<or> strict_prefix (location root) (location q))"
    by (simp only: join_strict_prefix[OF c False] join_inject[OF c])
  also have "\<dots> = prefix (location root) (location q)"
    by (auto simp: strict_prefix_def)
  finally show ?thesis .
qed

lemma validatePath_outcome:
  assumes "base \<noteq> []" and "hd base = CHR ''/''"
  shows "validatePath base cwd p =
           (if strict_prefix (location base) (target base p) \<or>
               (target base p = location base \<and>
                (last base \<noteq> CHR ''/'' \<or> location base = []))
            then Inr (posix_resolve cwd [base, p]) else Inl (access_denied p))"
proof -
  let ?rs = "target base p" and ?cs = "location base"
  have cl: "clean ?rs" by (rule target_clean)
  have cb: "clean ?cs" by (rule location_clean)
  have r: "posix_resolve cwd [base, p] = CHR ''/'' # join ?rs"
    by (rule resolve_absolute_base[OF assms])
  have nr: "posix_normalize (CHR ''/'' # join ?rs) = CHR ''/'' # join ?rs"
    using cl by (rule normalize_canonical)
  from assms have nb: "posix_normalize (base @ sep) =
      (if ?cs = [] then ''/'' else CHR ''/'' # join ?cs @ ''/'')"
    by (simp add: normalize_absolute sep_def)
  from assms have nb2: "posix_normalize base =
      (if ?cs = [] then ''/''
       else CHR ''/'' # join ?cs @ (if last base = CHR ''/'' then ''/'' else []))"
    by (simp add: normalize_absolute)
  show ?thesis
  proof (cases "?cs = []")
    case True
    with nb have "startsWith (CHR ''/'' # join ?rs) (posix_normalize (base @ sep))"
      by (simp add: startsWith_def)
    moreover from True have "strict_prefix ?cs ?rs \<or> ?rs = ?cs"
      by (cases ?rs) simp_all
    ultimately show ?thesis using True
      by (auto simp: validatePath_def Let_def r nr)
  next
    case False
    from nb False have s: "startsWith (CHR ''/'' # join ?rs) (posix_normalize (base @ sep))
                          = strict_prefix ?cs ?rs"
      using join_strict_prefix[OF cb cl False] by (simp add: startsWith_def)
    from nb2 False have e: "(CHR ''/'' # join ?rs = posix_normalize base)
                          = (?rs = ?cs \<and> last base \<noteq> CHR ''/'')"
      using join_inject[OF cb cl] join_not_trailing[OF cb cl False] by auto
    from s e False show ?thesis
      by (auto simp: validatePath_def Let_def r nr)
  qed
qed

lemma location_resolved:
  assumes "base \<noteq> []" and "hd base = CHR ''/''"
  shows "location (posix_resolve cwd [base, p]) = target base p"
  by (simp add: resolve_absolute_base[OF assms] location_canonical target_clean)

lemma spec_accepts_relative:
  assumes "p = [] \<or> hd p \<noteq> CHR ''/''"
  shows "spec_accepts base p = prefix (location base) (target base p)"
  using assms
  by (auto simp: spec_accepts_def spec_contains_iff spec_join_def sep_def target_def
        location_append)

lemma spec_contains_absolute:
  assumes "p \<noteq> []" and "hd p = CHR ''/''"
  shows "spec_contains base p = prefix (location base) (target base p)"
  using assms by (simp add: spec_contains_iff target_def)

text \<open>
  Claim C3, as amended. For an absolute root, validation decides exactly as the reference
  algorithm of the specification does on the path that \<^verbatim>\<open>path.resolve\<close> forms, and returns
  the resolution when it accepts. For an input that does not begin with the separator
  that path is the join of root and input, so the outcome is that of the reference
  algorithm on the request path; for an input that begins with the separator it is the
  input alone, and the reference comparison is made on it. The reference has no test for
  the substring \<^verbatim>\<open>..\<close>, so the test of the input for it plays no part. One case is left
  out: a root written with a separator at its end, together with an input that resolves
  to the root itself.
\<close>

theorem validatePath_refines_reference:
  assumes "base \<noteq> []" and "hd base = CHR ''/''"
      and "last base \<noteq> CHR ''/'' \<or> location base = [] \<or>
           location (posix_resolve cwd [base, p]) \<noteq> location base"
  shows "(p = [] \<or> hd p \<noteq> CHR ''/'' \<longrightarrow>
            validatePath base cwd p =
              (if spec_accepts base p then Inr (posix_resolve cwd [base, p])
               else Inl (access_denied p))) \<and>
         (p \<noteq> [] \<and> hd p = CHR ''/'' \<longrightarrow>
            validatePath base cwd p =
              (if spec_contains base p then Inr (posix_resolve cwd [base, p])
               else Inl (access_denied p)))"
proof -
  let ?rs = "target base p" and ?cs = "location base"
  from assms(3) have "last base \<noteq> CHR ''/'' \<or> ?cs = [] \<or> ?rs \<noteq> ?cs"
    by (simp add: location_resolved[OF assms(1,2)])
  then have "(strict_prefix ?cs ?rs \<or> (?rs = ?cs \<and> (last base \<noteq> CHR ''/'' \<or> ?cs = [])))
               = prefix ?cs ?rs"
    by (auto simp: strict_prefix_def)
  with validatePath_outcome[OF assms(1,2), of cwd p]
  have v: "validatePath base cwd p =
             (if prefix ?cs ?rs then Inr (posix_resolve cwd [base, p])
              else Inl (access_denied p))"
    by simp
  show ?thesis
    using v by (auto simp: spec_accepts_relative spec_contains_absolute)
qed

lemma example_root_written: "''/sandbox'' \<noteq> [] \<and> hd ''/sandbox'' = CHR ''/'' \<and> last ''/sandbox'' \<noteq> CHR ''/''"
  by simp

lemma example_reference_outcomes:
  "spec_accepts ''/sandbox'' ''a/b'' \<and> \<not> spec_accepts ''/sandbox'' ''a/../../etc'' \<and>
   spec_contains ''/sandbox'' ''/sandbox/x'' \<and> \<not> spec_contains ''/sandbox'' ''/etc''"
  by code_simp

theorem validatePath_refines_reference_witness:
  "''/sandbox'' \<noteq> [] \<and> hd ''/sandbox'' = CHR ''/'' \<and> last ''/sandbox'' \<noteq> CHR ''/'' \<and>
   spec_accepts ''/sandbox'' ''a/b'' \<and>
   validatePath ''/sandbox'' ''/'' ''a/b'' = Inr (posix_resolve ''/'' [''/sandbox'', ''a/b'']) \<and>
   \<not> spec_accepts ''/sandbox'' ''a/../../etc'' \<and>
   validatePath ''/sandbox'' ''/'' ''a/../../etc'' = Inl (access_denied ''a/../../etc'') \<and>
   spec_contains ''/sandbox'' ''/sandbox/x'' \<and>
   validatePath ''/sandbox'' ''/'' ''/sandbox/x''
     = Inr (posix_resolve ''/'' [''/sandbox'', ''/sandbox/x'']) \<and>
   \<not> spec_contains ''/sandbox'' ''/etc'' \<and>
   validatePath ''/sandbox'' ''/'' ''/etc'' = Inl (access_denied ''/etc'')"
proof -
  have a: "''/sandbox'' \<noteq> []" and b: "hd ''/sandbox'' = CHR ''/''" by simp_all
  have c: "last ''/sandbox'' \<noteq> CHR ''/'' \<or> location ''/sandbox'' = [] \<or>
           location (posix_resolve ''/'' [''/sandbox'', p]) \<noteq> location ''/sandbox''" for p
    by simp
  from validatePath_refines_reference[OF a b c, of "''a/b''"]
       validatePath_refines_reference[OF a b c, of "''a/../../etc''"]
       validatePath_refines_reference[OF a b c, of "''/sandbox/x''"]
       validatePath_refines_reference[OF a b c, of "''/etc''"]
       example_root_written example_reference_outcomes
  show ?thesis by simp
qed

text \<open>
  Claim C3 as stated fails for an input that begins with the separator: the reference
  algorithm joins \<^verbatim>\<open>/etc\<close> with the root \<^verbatim>\<open>/sandbox\<close> and accepts the result, while
  validation resolves the input on its own and rejects it.
\<close>

theorem reference_joins_absolute_input_counterexample:
  "spec_accepts ''/sandbox'' ''/etc'' \<and>
   validatePath ''/sandbox'' ''/'' ''/etc'' = Inl (access_denied ''/etc'')"
  by code_simp

end
